theory Spec2Isabelle
  imports Complex_Main "HOL-Library.AList" "HOL-Library.Monad_Syntax"
begin

section \<open>Text, exceptions and JSON values\<close>

text \<open>
  The archive metadata pipeline of \<^verbatim>\<open>src/file_extractor.py\<close>: the dataclass
  \<^verbatim>\<open>ArchiveInfo\<close>, the filename parser \<^verbatim>\<open>parse_archive_filename\<close> and the two
  writers of \<^verbatim>\<open>logs/archive_info.json\<close>, \<^verbatim>\<open>save_archive_info\<close> and
  \<^verbatim>\<open>_save_archive_info_dict\<close>.

  A Python \<^verbatim>\<open>str\<close> is modelled by the bytes of its UTF-8 encoding, one \<^typ>\<open>char\<close>
  per byte. The pattern of the parser only names ASCII characters, and UTF-8 never uses
  an ASCII byte inside a longer code point, so the classes \<^verbatim>\<open>[^_]\<close> and \<^verbatim>\<open>[^.]\<close>
  select the same text on bytes as on code points. The class \<^verbatim>\<open>\d\<close> is read as
  \<^verbatim>\<open>0\<close>..\<^verbatim>\<open>9\<close>; a file name that writes a digit group with another decimal digit of
  Unicode is outside this model.
\<close>

datatype exn =
  ValueError | AttributeError | TypeError | KeyError | OSError | UnicodeDecodeError

datatype json =
    JNull
  | JBool bool
  | JInt int
  | JFloat rat
  | JStr string
  | JArr "json list"
  | JObj "(string \<times> json) list"

type_synonym dict = "(string \<times> json) list"

text \<open>
  A \<^verbatim>\<open>dict\<close> keeps its keys in insertion order: \<^verbatim>\<open>d[k] = v\<close> overwrites the value of
  a key that is present and appends a new key otherwise, which is \<^const>\<open>AList.update\<close>.
  \<^verbatim>\<open>d.get(k)\<close> is \<^verbatim>\<open>None\<close> for a missing key.
\<close>

definition dict_get :: "dict \<Rightarrow> string \<Rightarrow> json" where
  "dict_get d k = (case map_of d k of None \<Rightarrow> JNull | Some v \<Rightarrow> v)"

definition dict_set :: "dict \<Rightarrow> string \<Rightarrow> json \<Rightarrow> dict" where
  "dict_set d k v = AList.update k v d"

section \<open>Dates: \<^verbatim>\<open>datetime.strptime(s, "%Y%m%d")\<close> and \<^verbatim>\<open>strftime("%Y-%m-%d")\<close>\<close>

definition is_digit :: "char \<Rightarrow> bool" where
  "is_digit c = (c \<in> set ''0123456789'')"

definition digit_val :: "char \<Rightarrow> nat" where
  "digit_val c = length (takeWhile (\<lambda>d. d \<noteq> c) ''0123456789'')"

definition digit_char :: "nat \<Rightarrow> char" where
  "digit_char n = ''0123456789'' ! (n mod 10)"

text \<open>\<^verbatim>\<open>int(s)\<close> on a string of digits, and \<^verbatim>\<open>str(n)\<close>.\<close>

definition py_int :: "string \<Rightarrow> nat" where
  "py_int s = foldl (\<lambda>n c. 10 * n + digit_val c) 0 s"

function decimal :: "nat \<Rightarrow> string" where
  "decimal n = (if n < 10 then [digit_char n] else decimal (n div 10) @ [digit_char n])"
  by pat_completeness auto
termination
  by (relation "measure id") auto

declare decimal.simps [simp del]

definition zfill :: "nat \<Rightarrow> string \<Rightarrow> string" where
  "zfill w s = replicate (w - length s) (CHR ''0'') @ s"

record datetime =
  year :: nat
  month :: nat
  day :: nat

definition is_leap :: "nat \<Rightarrow> bool" where
  "is_leap y = (y mod 4 = 0 \<and> (y mod 100 \<noteq> 0 \<or> y mod 400 = 0))"

definition days_in_month :: "nat \<Rightarrow> nat \<Rightarrow> nat" where
  "days_in_month y m =
     (if m = 2 then (if is_leap y then 29 else 28)
      else if m \<in> {4, 6, 9, 11} then 30 else 31)"

text \<open>
  The constructor of \<^verbatim>\<open>datetime.date\<close>: years 1 to 9999, a month of the year, a day of
  that month; anything else is a \<^verbatim>\<open>ValueError\<close>.
\<close>

definition make_date :: "nat \<Rightarrow> nat \<Rightarrow> nat \<Rightarrow> exn + datetime" where
  "make_date y m d =
     (if 1 \<le> y \<and> y \<le> 9999 \<and> 1 \<le> m \<and> m \<le> 12 \<and> 1 \<le> d \<and> d \<le> days_in_month y m
      then Inr \<lparr>year = y, month = m, day = d\<rparr>
      else Inl ValueError)"

text \<open>
  \<^verbatim>\<open>strptime\<close> compiles the format \<^verbatim>\<open>%Y%m%d\<close> to the regular expression
  \<^verbatim>\<open>(\d\d\d\d)(1[0-2]|0[1-9]|[1-9])(3[0-1]|[1-2]\d|0[1-9]|[1-9]| [1-9])\<close>, takes its first
  match at the start of the text (alternatives in the order written, the month before the
  day), and raises \<^verbatim>\<open>ValueError\<close> when there is none, when text remains after the match,
  or when the three numbers are not a date. The two functions below list, in that order,
  the ways the month and the day group can match, each with the text left over.
\<close>

definition month_alts :: "string \<Rightarrow> (nat \<times> string) list" where
  "month_alts s =
     (case s of
        a # b # r \<Rightarrow>
          (if a = CHR ''1'' \<and> b \<in> set ''012'' then [(py_int [a, b], r)] else []) @
          (if a = CHR ''0'' \<and> b \<in> set ''123456789'' then [(py_int [a, b], r)] else [])
      | _ \<Rightarrow> []) @
     (case s of
        a # r \<Rightarrow> if a \<in> set ''123456789'' then [(py_int [a], r)] else []
      | [] \<Rightarrow> [])"

definition day_alts :: "string \<Rightarrow> (nat \<times> string) list" where
  "day_alts s =
     (case s of
        a # b # r \<Rightarrow>
          (if a = CHR ''3'' \<and> b \<in> set ''01'' then [(py_int [a, b], r)] else []) @
          (if a \<in> set ''12'' \<and> is_digit b then [(py_int [a, b], r)] else []) @
          (if a = CHR ''0'' \<and> b \<in> set ''123456789'' then [(py_int [a, b], r)] else [])
      | _ \<Rightarrow> []) @
     (case s of
        a # r \<Rightarrow> if a \<in> set ''123456789'' then [(py_int [a], r)] else []
      | [] \<Rightarrow> []) @
     (case s of
        a # b # r \<Rightarrow> if a = CHR '' '' \<and> b \<in> set ''123456789'' then [(py_int [b], r)] else []
      | _ \<Rightarrow> [])"

definition strptime_Ymd :: "string \<Rightarrow> exn + datetime" where
  "strptime_Ymd s =
     (if length s < 4 \<or> \<not> list_all is_digit (take 4 s) then Inl ValueError
      else
        (case concat (map (\<lambda>(m, r). map (\<lambda>(d, r'). (m, d, r')) (day_alts r))
                          (month_alts (drop 4 s))) of
           [] \<Rightarrow> Inl ValueError
         | (m, d, r') # _ \<Rightarrow>
             if r' \<noteq> [] then Inl ValueError else make_date (py_int (take 4 s)) m d))"

text \<open>
  \<^verbatim>\<open>strftime\<close> hands the format to the C library. Month and day are printed with two
  digits everywhere. The year of \<^verbatim>\<open>%Y\<close> is printed with four digits by some C libraries
  and without leading zeros by others (glibc: \<^verbatim>\<open>datetime(999, 1, 1).strftime("%Y")\<close> is
  \<^verbatim>\<open>'999'\<close> on Linux with CPython 3.11), so the model takes the behaviour as a parameter.
\<close>

datatype strftime_year = Padded | Unpadded

definition strftime_Y_m_d :: "strftime_year \<Rightarrow> datetime \<Rightarrow> string" where
  "strftime_Y_m_d rt dt =
     (case rt of Padded \<Rightarrow> zfill 4 (decimal (year dt)) | Unpadded \<Rightarrow> decimal (year dt))
     @ ''-'' @ zfill 2 (decimal (month dt)) @ ''-'' @ zfill 2 (decimal (day dt))"

section \<open>The dataclass \<^verbatim>\<open>ArchiveInfo\<close>\<close>

record ArchiveInfo =
  filename :: string
  date_str :: string
  post_id :: string
  floor_number :: string
  author_id :: string
  encryption_method :: string

text \<open>The Chinese literals of the source, in UTF-8.\<close>

definition anonymous :: string where
  \<comment> \<open>U+533F U+540D\<close>
  "anonymous = [CHR 0xE5, CHR 0x8C, CHR 0xBF, CHR 0xE5, CHR 0x90, CHR 0x8D]"

definition word_in :: string where
  \<comment> \<open>U+4E2D\<close>
  "word_in = [CHR 0xE4, CHR 0xB8, CHR 0xAD]"

definition word_floor :: string where
  \<comment> \<open>U+697C\<close>
  "word_floor = [CHR 0xE6, CHR 0xA5, CHR 0xBC]"

definition word_posted :: string where
  \<comment> \<open>U+53D1 U+8868 U+5185 U+5BB9 U+7684\<close>
  "word_posted = [CHR 0xE5, CHR 0x8F, CHR 0x91, CHR 0xE8, CHR 0xA1, CHR 0xA8, CHR 0xE5, CHR 0x86,
                  CHR 0x85, CHR 0xE5, CHR 0xAE, CHR 0xB9, CHR 0xE7, CHR 0x9A, CHR 0x84]"

definition word_hash :: string where
  \<comment> \<open>U+54C8 U+5E0C\<close>
  "word_hash = [CHR 0xE5, CHR 0x93, CHR 0x88, CHR 0xE5, CHR 0xB8, CHR 0x8C]"

definition date :: "ArchiveInfo \<Rightarrow> exn + datetime" where
  "date info = strptime_Ymd (date_str info)"

definition forum_url :: "ArchiveInfo \<Rightarrow> string" where
  "forum_url info = ''https://cc98.org/'' @ post_id info @ ''/''"

definition to_dict :: "strftime_year \<Rightarrow> ArchiveInfo \<Rightarrow> exn + dict" where
  "to_dict rt info =
     (case date info of
        Inl e \<Rightarrow> Inl e
      | Inr dt \<Rightarrow> Inr
          [(''filename'', JStr (filename info)),
           (''date_str'', JStr (date_str info)),
           (''date_formatted'', JStr (strftime_Y_m_d rt dt)),
           (''post_id'', JStr (post_id info)),
           (''floor_number'', JStr (floor_number info)),
           (''author_id'', JStr (anonymous @ author_id info)),
           (''encryption_method'', JStr (encryption_method info)),
           (''forum_url'', JStr (forum_url info)),
           (''password_description'',
              JStr (forum_url info @ '' '' @ word_in @ '' '' @ floor_number info @ word_floor
                    @ '' '' @ anonymous @ author_id info @ '' '' @ word_posted
                    @ encryption_method info @ word_hash))])"

section \<open>The filename parser\<close>

text \<open>
  \<^verbatim>\<open>re.match(r'^chalaoshi_csv(\d{8})_(\d+)_(\d+)_([^_]+)_([^.]+)\.zip$', filename)\<close>.
  Each repeated class is followed by a character outside the class, so a match can only
  take the longest run: the groups are read from left to right. Without the flag
  \<^verbatim>\<open>MULTILINE\<close>, \<^verbatim>\<open>$\<close> matches at the end of the text and also just before a line feed
  that ends the text.
\<close>

definition lit :: "string \<Rightarrow> string \<Rightarrow> string option" where
  "lit p s = (if take (length p) s = p then Some (drop (length p) s) else None)"

definition many1 :: "(char \<Rightarrow> bool) \<Rightarrow> string \<Rightarrow> (string \<times> string) option" where
  "many1 P s = (if takeWhile P s = [] then None else Some (takeWhile P s, dropWhile P s))"

definition digits8 :: "string \<Rightarrow> (string \<times> string) option" where
  "digits8 s =
     (if length (take 8 s) = 8 \<and> list_all is_digit (take 8 s) then Some (take 8 s, drop 8 s)
      else None)"

definition dollar :: "string \<Rightarrow> bool" where
  "dollar s = (s = [] \<or> s = [CHR 0x0A])"

definition re_match :: "string \<Rightarrow> (string \<times> string \<times> string \<times> string \<times> string) option" where
  "re_match s =
     do {
       r0 \<leftarrow> lit ''chalaoshi_csv'' s;
       (d, r1) \<leftarrow> digits8 r0;
       r2 \<leftarrow> lit ''_'' r1;
       (p, r3) \<leftarrow> many1 is_digit r2;
       r4 \<leftarrow> lit ''_'' r3;
       (f, r5) \<leftarrow> many1 is_digit r4;
       r6 \<leftarrow> lit ''_'' r5;
       (a, r7) \<leftarrow> many1 (\<lambda>c. c \<noteq> CHR ''_'') r6;
       r8 \<leftarrow> lit ''_'' r7;
       (m, r9) \<leftarrow> many1 (\<lambda>c. c \<noteq> CHR ''.'') r8;
       r10 \<leftarrow> lit ''.zip'' r9;
       if dollar r10 then Some (d, p, f, a, m) else None
     }"

definition parse_archive_filename :: "string \<Rightarrow> ArchiveInfo option" where
  "parse_archive_filename fn =
     (case re_match fn of
        None \<Rightarrow> None
      | Some (d, p, f, a, m) \<Rightarrow>
          (case strptime_Ymd d of
             Inl e \<Rightarrow> None
           | Inr dt \<Rightarrow>
               Some \<lparr>filename = fn, date_str = d, post_id = p, floor_number = f,
                     author_id = a, encryption_method = m\<rparr>))"

section \<open>The store file \<^verbatim>\<open>logs/archive_info.json\<close>\<close>

text \<open>
  What the two writers can observe of the file system. The directory of the output path
  can be created or not (\<^verbatim>\<open>mkdir(parents=True, exist_ok=True)\<close>). The file is absent,
  or holds bytes that are not UTF-8 (\<^verbatim>\<open>UnicodeDecodeError\<close> on reading), or text that is
  not JSON (\<^verbatim>\<open>JSONDecodeError\<close>), or a JSON document; a file that is present may refuse
  to be opened for reading (\<^verbatim>\<open>IOError\<close>). A write succeeds, or fails when the file is
  opened, or fails after \<^verbatim>\<open>open(path, 'w')\<close> has truncated the file, leaving a proper
  prefix of the new text, which is never a JSON document and may end inside a character.
  The file holds the document itself: \<^verbatim>\<open>json.load\<close> is taken to return the value that
  \<^verbatim>\<open>json.dump\<close> wrote.
\<close>

datatype file_content = Absent | NotUtf8 | NotJson | Doc json

datatype write_behaviour = WriteOk | OpenFails | DumpFails bool

record filesystem =
  parent_ok :: bool
  readable :: bool
  content :: file_content
  on_write :: write_behaviour

datatype outcome = Returns bool | Raises exn

text \<open>
  Lines 176 to 183 (and 411 to 417): the inner handler catches \<^verbatim>\<open>JSONDecodeError\<close> and
  \<^verbatim>\<open>IOError\<close> only.
\<close>

definition read_existing :: "filesystem \<Rightarrow> exn + json" where
  "read_existing fs =
     (case content fs of
        Absent \<Rightarrow> Inr (JArr [])
      | NotUtf8 \<Rightarrow> if readable fs then Inl UnicodeDecodeError else Inr (JArr [])
      | NotJson \<Rightarrow> Inr (JArr [])
      | Doc j \<Rightarrow> if readable fs then Inr j else Inr (JArr []))"

text \<open>
  The loop \<^verbatim>\<open>for i, record in enumerate(existing_data)\<close> with its \<^verbatim>\<open>break\<close>:
  \<^verbatim>\<open>record.get\<close> exists on a \<^verbatim>\<open>dict\<close> only. The file name compared is a \<^verbatim>\<open>str\<close>
  wherever the program calls the writers, and for a \<^verbatim>\<open>str\<close> Python's \<^verbatim>\<open>==\<close> is
  equality of the values.
\<close>

fun scan_records :: "json \<Rightarrow> json list \<Rightarrow> exn + nat option" where
  "scan_records fname [] = Inr None"
| "scan_records fname (r # rs) =
     (case r of
        JObj d \<Rightarrow>
          if dict_get d ''filename'' = fname then Inr (Some 0)
          else (case scan_records fname rs of
                  Inr (Some i) \<Rightarrow> Inr (Some (Suc i))
                | other \<Rightarrow> other)
      | _ \<Rightarrow> Inl AttributeError)"

text \<open>
  A document that is not a list: iterating a \<^verbatim>\<open>dict\<close> or a \<^verbatim>\<open>str\<close> yields strings,
  which have no \<^verbatim>\<open>get\<close>; the other values are not iterable.
\<close>

definition find_record :: "json \<Rightarrow> json \<Rightarrow> exn + nat option" where
  "find_record fname existing =
     (case existing of
        JArr rs \<Rightarrow> scan_records fname rs
      | JObj [] \<Rightarrow> Inr None
      | JObj (kv # kvs) \<Rightarrow> Inl AttributeError
      | JStr [] \<Rightarrow> Inr None
      | JStr (c # cs) \<Rightarrow> Inl AttributeError
      | _ \<Rightarrow> Inl TypeError)"

text \<open>
  \<^verbatim>\<open>existing_data[i] = new_record\<close> for the index found, \<^verbatim>\<open>existing_data.append\<close>
  otherwise; only a list has \<^verbatim>\<open>append\<close>. An index is found in a list only.
\<close>

definition put_record :: "nat option \<Rightarrow> json \<Rightarrow> json \<Rightarrow> exn + json" where
  "put_record idx new_record existing =
     (case existing of
        JArr rs \<Rightarrow>
          (case idx of
             Some i \<Rightarrow> Inr (JArr (rs[i := new_record]))
           | None \<Rightarrow> Inr (JArr (rs @ [new_record])))
      | _ \<Rightarrow> Inl AttributeError)"

definition write_json :: "json \<Rightarrow> filesystem \<Rightarrow> (exn + unit) \<times> filesystem" where
  "write_json j fs =
     (case on_write fs of
        WriteOk \<Rightarrow> (Inr (), fs\<lparr>content := Doc j\<rparr>)
      | OpenFails \<Rightarrow> (Inl OSError, fs)
      | DumpFails torn \<Rightarrow> (Inl OSError, fs\<lparr>content := (if torn then NotUtf8 else NotJson)\<rparr>))"

text \<open>
  \<^verbatim>\<open>save_archive_info\<close>, the upsert. \<^verbatim>\<open>now\<close> is \<^verbatim>\<open>datetime.now().isoformat()\<close>.
  \<^verbatim>\<open>mkdir\<close> (line 172) stands before the \<^verbatim>\<open>try\<close>; everything after it is inside, and
  \<^verbatim>\<open>except Exception\<close> turns every exception into the result \<^verbatim>\<open>False\<close>.
\<close>

definition save_archive_info ::
  "strftime_year \<Rightarrow> ArchiveInfo \<Rightarrow> string \<Rightarrow> filesystem \<Rightarrow> outcome \<times> filesystem" where
  "save_archive_info rt archive_info now fs =
     (if \<not> parent_ok fs then (Raises OSError, fs)
      else
        (case
           (case read_existing fs of
              Inl e \<Rightarrow> Inl e
            | Inr existing_data \<Rightarrow>
                (case find_record (JStr (filename archive_info)) existing_data of
                   Inl e \<Rightarrow> Inl e
                 | Inr existing_record \<Rightarrow>
                     (case to_dict rt archive_info of
                        Inl e \<Rightarrow> Inl e
                      | Inr d \<Rightarrow>
                          put_record existing_record
                            (JObj (dict_set d ''updated_at'' (JStr now))) existing_data)))
         of
           Inl e \<Rightarrow> (Returns False, fs)
         | Inr data \<Rightarrow>
             (case write_json data fs of
                (Inl e, fs') \<Rightarrow> (Returns False, fs')
              | (Inr u, fs') \<Rightarrow> (Returns True, fs'))))"

text \<open>
  \<^verbatim>\<open>_save_archive_info_dict\<close>: the same steps on a dictionary, which is stored as it
  is. \<^verbatim>\<open>archive_info_dict['filename']\<close> raises \<^verbatim>\<open>KeyError\<close> for a missing key.
\<close>

definition save_archive_info_dict :: "dict \<Rightarrow> filesystem \<Rightarrow> outcome \<times> filesystem" where
  "save_archive_info_dict archive_info_dict fs =
     (if \<not> parent_ok fs then (Raises OSError, fs)
      else
        (case
           (case read_existing fs of
              Inl e \<Rightarrow> Inl e
            | Inr existing_data \<Rightarrow>
                (case map_of archive_info_dict ''filename'' of
                   None \<Rightarrow> Inl KeyError
                 | Some fname \<Rightarrow>
                     (case find_record fname existing_data of
                        Inl e \<Rightarrow> Inl e
                      | Inr updated \<Rightarrow>
                          put_record updated (JObj archive_info_dict) existing_data)))
         of
           Inl e \<Rightarrow> (Returns False, fs)
         | Inr data \<Rightarrow>
             (case write_json data fs of
                (Inl e, fs') \<Rightarrow> (Returns False, fs')
              | (Inr u, fs') \<Rightarrow> (Returns True, fs'))))"

text \<open>
  Lines 380 to 388 of \<^verbatim>\<open>extract_file\<close>, run after a successful extraction of an archive
  whose name was parsed: the record's dictionary with the three extraction fields is
  saved again. The result is that of the save, which \<^verbatim>\<open>extract_file\<close> ignores.
\<close>

definition mark_extracted ::
  "strftime_year \<Rightarrow> ArchiveInfo \<Rightarrow> string \<Rightarrow> string \<Rightarrow> filesystem \<Rightarrow> outcome \<times> filesystem" where
  "mark_extracted rt archive_info extract_dir now fs =
     (case to_dict rt archive_info of
        Inl e \<Rightarrow> (Raises e, fs)
      | Inr d0 \<Rightarrow>
          (let d1 = dict_set d0 ''extracted'' (JBool True);
               d2 = dict_set d1 ''extract_dir'' (JStr extract_dir);
               d3 = dict_set d2 ''extraction_time'' (JStr now)
           in save_archive_info_dict d3 fs))"

section \<open>Notions used to state the properties\<close>

text \<open>The stored records that the upsert treats as records of a file name.\<close>

definition has_filename :: "string \<Rightarrow> json \<Rightarrow> bool" where
  "has_filename f r = (case r of JObj d \<Rightarrow> dict_get d ''filename'' = JStr f | _ \<Rightarrow> False)"

text \<open>The list that a run of a writer starts from.\<close>

definition loaded :: "filesystem \<Rightarrow> json list" where
  "loaded fs = (case read_existing fs of Inr (JArr rs) \<Rightarrow> rs | _ \<Rightarrow> [])"

text \<open>The file names of a list of records, and the invariant of the store.\<close>

definition filename_of :: "json \<Rightarrow> string option" where
  "filename_of r =
     (case r of
        JObj d \<Rightarrow> (case dict_get d ''filename'' of JStr f \<Rightarrow> Some f | _ \<Rightarrow> None)
      | _ \<Rightarrow> None)"

definition filenames :: "json list \<Rightarrow> string list" where
  "filenames rs = List.map_filter filename_of rs"

definition unique_filenames :: "json list \<Rightarrow> bool" where
  "unique_filenames rs = distinct (filenames rs)"

text \<open>
  The grammar of section 4.1 of the specification, as the text it generates from its five
  groups.
\<close>

definition well_formed :: "string \<Rightarrow> string \<Rightarrow> string \<Rightarrow> string \<Rightarrow> string \<Rightarrow> bool" where
  "well_formed d p f a m =
     (length d = 8 \<and> list_all is_digit d \<and>
      p \<noteq> [] \<and> list_all is_digit p \<and>
      f \<noteq> [] \<and> list_all is_digit f \<and>
      a \<noteq> [] \<and> list_all (\<lambda>c. c \<noteq> CHR ''_'') a \<and>
      m \<noteq> [] \<and> list_all (\<lambda>c. c \<noteq> CHR ''.'') m)"

definition archive_name :: "string \<Rightarrow> string \<Rightarrow> string \<Rightarrow> string \<Rightarrow> string \<Rightarrow> string" where
  "archive_name d p f a m =
     ''chalaoshi_csv'' @ d @ ''_'' @ p @ ''_'' @ f @ ''_'' @ a @ ''_'' @ m @ ''.zip''"

text \<open>
  A real calendar date written with eight digits: year, month and day of the proleptic
  Gregorian calendar, years 0001 to 9999.
\<close>

definition calendar_date :: "string \<Rightarrow> bool" where
  "calendar_date d =
     (let y = py_int (take 4 d); m = py_int (take 2 (drop 4 d)); dd = py_int (drop 6 d)
      in 1 \<le> y \<and> 1 \<le> m \<and> m \<le> 12 \<and> 1 \<le> dd \<and> dd \<le> days_in_month y m)"

text \<open>\<^verbatim>\<open>YYYYMMDD\<close> with hyphens inserted.\<close>

definition hyphenated :: "string \<Rightarrow> string" where
  "hyphenated d = take 4 d @ ''-'' @ take 2 (drop 4 d) @ ''-'' @ drop 6 d"

text \<open>The archive of the specification's example, and a store that does not exist yet.\<close>

definition example_info :: ArchiveInfo where
  "example_info =
     \<lparr>filename = ''chalaoshi_csv20250502_5399305_2696_26893D_sha256.zip'',
      date_str = ''20250502'', post_id = ''5399305'', floor_number = ''2696'',
      author_id = ''26893D'', encryption_method = ''sha256''\<rparr>"

definition fresh_fs :: filesystem where
  "fresh_fs = \<lparr>parent_ok = True, readable = True, content = Absent, on_write = WriteOk\<rparr>"

definition second_info :: ArchiveInfo where
  "second_info =
     \<lparr>filename = ''chalaoshi_csv20250601_5400000_12_ABCDEF_sha256.zip'',
      date_str = ''20250601'', post_id = ''5400000'', floor_number = ''12'',
      author_id = ''ABCDEF'', encryption_method = ''sha256''\<rparr>"

text \<open>
  A store that breaks the invariant, two records of one file name, and the example
  archive with other field values.
\<close>

definition duplicate_fs :: filesystem where
  "duplicate_fs =
     \<lparr>parent_ok = True, readable = True,
      content = Doc (JArr
        [JObj [(''filename'', JStr ''chalaoshi_csv20250502_5399305_2696_26893D_sha256.zip''),
               (''post_id'', JStr ''first copy'')],
         JObj [(''filename'', JStr ''chalaoshi_csv20250502_5399305_2696_26893D_sha256.zip''),
               (''post_id'', JStr ''second copy'')]]),
      on_write = WriteOk\<rparr>"

definition revised_info :: ArchiveInfo where
  "revised_info = example_info\<lparr>post_id := ''42'', floor_number := ''7''\<rparr>"

section \<open>Evaluation\<close>

lemma decimal_small: "n < 10 \<Longrightarrow> decimal n = [digit_char n]"
  by (simp add: decimal.simps)

lemma decimal_large: "10 \<le> n \<Longrightarrow> decimal n = decimal (n div 10) @ [digit_char n]"
  by (subst decimal.simps) simp

lemmas date_defs = strptime_Ymd_def month_alts_def day_alts_def make_date_def py_int_def
  digit_val_def days_in_month_def is_leap_def is_digit_def

lemmas parse_defs = parse_archive_filename_def re_match_def lit_def digits8_def many1_def
  dollar_def

lemmas dict_defs = to_dict_def date_def strftime_Y_m_d_def zfill_def decimal_small decimal_large
  digit_char_def forum_url_def dict_get_def dict_set_def

lemmas store_defs = save_archive_info_def save_archive_info_dict_def mark_extracted_def
  read_existing_def find_record_def put_record_def write_json_def

lemmas example_defs = example_info_def second_info_def fresh_fs_def

lemma example_to_dict:
  "to_dict Padded example_info =
     Inr [(''filename'', JStr ''chalaoshi_csv20250502_5399305_2696_26893D_sha256.zip''),
          (''date_str'', JStr ''20250502''),
          (''date_formatted'', JStr ''2025-05-02''),
          (''post_id'', JStr ''5399305''),
          (''floor_number'', JStr ''2696''),
          (''author_id'', JStr (anonymous @ ''26893D'')),
          (''encryption_method'', JStr ''sha256''),
          (''forum_url'', JStr ''https://cc98.org/5399305/''),
          (''password_description'',
             JStr (''https://cc98.org/5399305/ '' @ word_in @ '' 2696'' @ word_floor @ '' ''
                   @ anonymous @ ''26893D '' @ word_posted @ ''sha256'' @ word_hash))]"
  by (simp add: example_info_def dict_defs date_defs)

lemma second_to_dict:
  "to_dict Padded second_info =
     Inr [(''filename'', JStr ''chalaoshi_csv20250601_5400000_12_ABCDEF_sha256.zip''),
          (''date_str'', JStr ''20250601''),
          (''date_formatted'', JStr ''2025-06-01''),
          (''post_id'', JStr ''5400000''),
          (''floor_number'', JStr ''12''),
          (''author_id'', JStr (anonymous @ ''ABCDEF'')),
          (''encryption_method'', JStr ''sha256''),
          (''forum_url'', JStr ''https://cc98.org/5400000/''),
          (''password_description'',
             JStr (''https://cc98.org/5400000/ '' @ word_in @ '' 12'' @ word_floor @ '' ''
                   @ anonymous @ ''ABCDEF '' @ word_posted @ ''sha256'' @ word_hash))]"
  by (simp add: second_info_def dict_defs date_defs)

lemma revised_to_dict:
  "to_dict Padded revised_info =
     Inr [(''filename'', JStr ''chalaoshi_csv20250502_5399305_2696_26893D_sha256.zip''),
          (''date_str'', JStr ''20250502''),
          (''date_formatted'', JStr ''2025-05-02''),
          (''post_id'', JStr ''42''),
          (''floor_number'', JStr ''7''),
          (''author_id'', JStr (anonymous @ ''26893D'')),
          (''encryption_method'', JStr ''sha256''),
          (''forum_url'', JStr ''https://cc98.org/42/''),
          (''password_description'',
             JStr (''https://cc98.org/42/ '' @ word_in @ '' 7'' @ word_floor @ '' ''
                   @ anonymous @ ''26893D '' @ word_posted @ ''sha256'' @ word_hash))]"
  by (simp add: revised_info_def example_info_def dict_defs date_defs)

lemma example_filename:
  "filename example_info = ''chalaoshi_csv20250502_5399305_2696_26893D_sha256.zip''"
  "filename revised_info = ''chalaoshi_csv20250502_5399305_2696_26893D_sha256.zip''"
  by (simp_all add: example_info_def revised_info_def)

lemma example_into_duplicate:
  "save_archive_info Padded example_info ''2025-05-03T10:00:00'' duplicate_fs
     = (Returns True,
        duplicate_fs\<lparr>content := Doc (JArr
          [JObj (projr (to_dict Padded example_info)
                 @ [(''updated_at'', JStr ''2025-05-03T10:00:00'')]),
           JObj [(''filename'', JStr ''chalaoshi_csv20250502_5399305_2696_26893D_sha256.zip''),
                 (''post_id'', JStr ''second copy'')]])\<rparr>)"
  by (simp add: example_to_dict example_filename duplicate_fs_def store_defs dict_set_def
      dict_get_def)


lemma revised_into_duplicate:
  "save_archive_info Padded revised_info ''2025-05-04T09:30:00''
        (duplicate_fs\<lparr>content := Doc (JArr
          [JObj (projr (to_dict Padded example_info)
                 @ [(''updated_at'', JStr ''2025-05-03T10:00:00'')]),
           JObj [(''filename'', JStr ''chalaoshi_csv20250502_5399305_2696_26893D_sha256.zip''),
                 (''post_id'', JStr ''second copy'')]])\<rparr>)
     = (Returns True,
        duplicate_fs\<lparr>content := Doc (JArr
          [JObj (projr (to_dict Padded revised_info)
                 @ [(''updated_at'', JStr ''2025-05-04T09:30:00'')]),
           JObj [(''filename'', JStr ''chalaoshi_csv20250502_5399305_2696_26893D_sha256.zip''),
                 (''post_id'', JStr ''second copy'')]])\<rparr>)"
  by (simp add: example_to_dict revised_to_dict example_filename duplicate_fs_def store_defs
      dict_set_def dict_get_def)

lemma dict_into_duplicate:
  "save_archive_info_dict
        [(''filename'', JStr ''chalaoshi_csv20250502_5399305_2696_26893D_sha256.zip''),
         (''extracted'', JBool True)] duplicate_fs
     = (Returns True,
        duplicate_fs\<lparr>content := Doc (JArr
          [JObj [(''filename'', JStr ''chalaoshi_csv20250502_5399305_2696_26893D_sha256.zip''),
                 (''extracted'', JBool True)],
           JObj [(''filename'', JStr ''chalaoshi_csv20250502_5399305_2696_26893D_sha256.zip''),
                 (''post_id'', JStr ''second copy'')]])\<rparr>)"
  by (simp add: duplicate_fs_def store_defs dict_get_def)

lemma loaded_duplicate:
  "loaded duplicate_fs =
        [JObj [(''filename'', JStr ''chalaoshi_csv20250502_5399305_2696_26893D_sha256.zip''),
               (''post_id'', JStr ''first copy'')],
         JObj [(''filename'', JStr ''chalaoshi_csv20250502_5399305_2696_26893D_sha256.zip''),
               (''post_id'', JStr ''second copy'')]]"
  by (simp add: duplicate_fs_def loaded_def read_existing_def)

lemma readable_duplicate: "readable duplicate_fs"
  by (simp add: duplicate_fs_def)

lemma example_into_fresh:
  "save_archive_info Padded example_info ''2025-05-03T10:00:00'' fresh_fs
     = (Returns True,
        fresh_fs\<lparr>content := Doc (JArr [JObj (projr (to_dict Padded example_info)
                     @ [(''updated_at'', JStr ''2025-05-03T10:00:00'')])])\<rparr>)"
  by (simp add: example_to_dict example_filename fresh_fs_def store_defs dict_set_def
      dict_get_def)

lemma revised_into_single:
  "save_archive_info Padded revised_info ''2025-05-04T09:30:00''
        (fresh_fs\<lparr>content := Doc (JArr [JObj (projr (to_dict Padded example_info)
                     @ [(''updated_at'', JStr ''2025-05-03T10:00:00'')])])\<rparr>)
     = (Returns True,
        fresh_fs\<lparr>content := Doc (JArr [JObj (projr (to_dict Padded revised_info)
                     @ [(''updated_at'', JStr ''2025-05-04T09:30:00'')])])\<rparr>)"
  by (simp add: example_to_dict revised_to_dict example_filename fresh_fs_def store_defs
      dict_set_def dict_get_def)

lemma loaded_fresh: "loaded fresh_fs = []"
  by (simp add: fresh_fs_def loaded_def read_existing_def)

section \<open>Facts about the record dictionary and the scan\<close>

lemma to_dict_stamp:
  "to_dict rt info = Inr d \<Longrightarrow> dict_set d ''updated_at'' v = d @ [(''updated_at'', v)]"
  by (auto simp: to_dict_def dict_set_def split: sum.splits)

lemma to_dict_keys:
  "to_dict rt info = Inr d \<Longrightarrow>
     map fst d = [''filename'', ''date_str'', ''date_formatted'', ''post_id'', ''floor_number'',
                  ''author_id'', ''encryption_method'', ''forum_url'', ''password_description'']"
  by (auto simp: to_dict_def split: sum.splits)

lemma to_dict_filename:
  "to_dict rt info = Inr d \<Longrightarrow> dict_get (d @ [(''updated_at'', v)]) ''filename'' = JStr (filename info)"
  by (auto simp: to_dict_def dict_get_def split: sum.splits)

lemma has_filename_stamped:
  "to_dict rt info = Inr d \<Longrightarrow>
     has_filename f (JObj (d @ [(''updated_at'', v)])) = (f = filename info)"
  by (auto simp: has_filename_def to_dict_filename)

lemma has_filename_iff: "has_filename f r = (filename_of r = Some f)"
  by (auto simp: has_filename_def filename_of_def split: json.splits)

lemma scan_records_Some:
  "scan_records (JStr f) rs = Inr (Some i) \<Longrightarrow>
     i < length rs \<and> has_filename f (rs ! i) \<and> (\<forall>j<i. \<not> has_filename f (rs ! j))"
proof (induction rs arbitrary: i)
  case Nil
  then show ?case by simp
next
  case (Cons r rs)
  show ?case
  proof (cases r)
    case (JObj d)
    show ?thesis
    proof (cases "dict_get d ''filename'' = JStr f")
      case True
      with Cons.prems JObj show ?thesis by (simp add: has_filename_def)
    next
      case False
      with Cons.prems JObj obtain k where k: "scan_records (JStr f) rs = Inr (Some k)" "i = Suc k"
        by (auto split: sum.splits option.splits)
      from Cons.IH[OF k(1)] have ih: "k < length rs" "has_filename f (rs ! k)"
        "\<forall>j<k. \<not> has_filename f (rs ! j)" by auto
      have "\<not> has_filename f r" using False JObj by (simp add: has_filename_def)
      with ih k(2) show ?thesis by (auto simp: less_Suc_eq_0_disj)
    qed
  qed (use Cons.prems in auto)
qed

lemma scan_records_None:
  "scan_records (JStr f) rs = Inr None \<Longrightarrow> \<forall>r\<in>set rs. \<not> has_filename f r"
proof (induction rs)
  case Nil
  then show ?case by simp
next
  case (Cons r rs)
  then show ?case
    by (cases r) (auto simp: has_filename_def split: if_splits sum.splits option.splits)
qed

text \<open>Conversely, the scan finds the first record of the name when all before it are dictionaries.\<close>

lemma scan_records_first:
  "i < length rs \<Longrightarrow> has_filename f (rs ! i) \<Longrightarrow>
   (\<forall>j<i. \<exists>d. rs ! j = JObj d \<and> \<not> has_filename f (rs ! j)) \<Longrightarrow>
   scan_records (JStr f) rs = Inr (Some i)"
proof (induction rs arbitrary: i)
  case Nil
  then show ?case by simp
next
  case (Cons r rs)
  show ?case
  proof (cases i)
    case 0
    with Cons.prems show ?thesis by (auto simp: has_filename_def split: json.splits)
  next
    case (Suc k)
    from Cons.prems(3) Suc obtain d where d: "r = JObj d" "\<not> has_filename f r"
      by (metis nth_Cons_0 zero_less_Suc)
    have "scan_records (JStr f) rs = Inr (Some k)"
    proof (rule Cons.IH)
      show "k < length rs" using Cons.prems(1) Suc by simp
      show "has_filename f (rs ! k)" using Cons.prems(2) Suc by simp
      show "\<forall>j<k. \<exists>d. rs ! j = JObj d \<and> \<not> has_filename f (rs ! j)"
        using Cons.prems(3) Suc by (metis Suc_less_eq nth_Cons_Suc)
    qed
    with d Suc show ?thesis by (simp add: has_filename_def)
  qed
qed

lemma save_archive_info_success:
  assumes "save_archive_info rt info now fs = (Returns True, fs')"
  shows "\<exists>d idx. parent_ok fs \<and> on_write fs = WriteOk \<and> to_dict rt info = Inr d \<and>
           read_existing fs = Inr (JArr (loaded fs)) \<and>
           scan_records (JStr (filename info)) (loaded fs) = Inr idx \<and>
           fs' = fs\<lparr>content := Doc (JArr (case idx of
                    None \<Rightarrow> loaded fs @ [JObj (d @ [(''updated_at'', JStr now)])]
                  | Some i \<Rightarrow> (loaded fs)[i := JObj (d @ [(''updated_at'', JStr now)])]))\<rparr>"
proof -
  from assms have p: "parent_ok fs" by (auto simp: save_archive_info_def split: if_splits)
  from assms p obtain existing where e: "read_existing fs = Inr existing"
    by (auto simp: save_archive_info_def split: sum.splits)
  from assms p e obtain idx where i: "find_record (JStr (filename info)) existing = Inr idx"
    by (auto simp: save_archive_info_def split: sum.splits)
  from assms p e i obtain d where d: "to_dict rt info = Inr d"
    by (auto simp: save_archive_info_def split: sum.splits)
  from assms p e i d obtain data where
    pr: "put_record idx (JObj (dict_set d ''updated_at'' (JStr now))) existing = Inr data"
    by (auto simp: save_archive_info_def split: sum.splits)
  from pr obtain rs where rs: "existing = JArr rs"
    by (cases existing) (auto simp: put_record_def)
  from assms p e i d pr have w: "write_json data fs = (Inr (), fs')"
    by (auto simp: save_archive_info_def split: sum.splits prod.splits)
  then have ow: "on_write fs = WriteOk" and fs': "fs' = fs\<lparr>content := Doc data\<rparr>"
    by (auto simp: write_json_def split: write_behaviour.splits)
  have l: "loaded fs = rs" using e rs by (simp add: loaded_def)
  have "scan_records (JStr (filename info)) rs = Inr idx" using i rs by (simp add: find_record_def)
  moreover have "data = JArr (case idx of
                    None \<Rightarrow> rs @ [JObj (d @ [(''updated_at'', JStr now)])]
                  | Some i \<Rightarrow> rs[i := JObj (d @ [(''updated_at'', JStr now)])])"
    using pr rs to_dict_stamp[OF d] by (auto simp: put_record_def split: option.splits)
  ultimately show ?thesis using p ow d e rs l fs' by auto
qed

lemma save_archive_info_dict_success:
  assumes "save_archive_info_dict d fs = (Returns True, fs')"
  shows "\<exists>fname idx. parent_ok fs \<and> on_write fs = WriteOk \<and> map_of d ''filename'' = Some fname \<and>
           read_existing fs = Inr (JArr (loaded fs)) \<and>
           scan_records fname (loaded fs) = Inr idx \<and>
           fs' = fs\<lparr>content := Doc (JArr (case idx of
                    None \<Rightarrow> loaded fs @ [JObj d]
                  | Some i \<Rightarrow> (loaded fs)[i := JObj d]))\<rparr>"
proof -
  from assms have p: "parent_ok fs" by (auto simp: save_archive_info_dict_def split: if_splits)
  from assms p obtain existing where e: "read_existing fs = Inr existing"
    by (auto simp: save_archive_info_dict_def split: sum.splits)
  from assms p e obtain fname where f: "map_of d ''filename'' = Some fname"
    by (auto simp: save_archive_info_dict_def split: sum.splits option.splits)
  from assms p e f obtain idx where i: "find_record fname existing = Inr idx"
    by (auto simp: save_archive_info_dict_def split: sum.splits)
  from assms p e i f obtain data where
    pr: "put_record idx (JObj d) existing = Inr data"
    by (auto simp: save_archive_info_dict_def split: sum.splits)
  from pr obtain rs where rs: "existing = JArr rs"
    by (cases existing) (auto simp: put_record_def)
  from assms p e i f pr have w: "write_json data fs = (Inr (), fs')"
    by (auto simp: save_archive_info_dict_def split: sum.splits prod.splits)
  then have ow: "on_write fs = WriteOk" and fs': "fs' = fs\<lparr>content := Doc data\<rparr>"
    by (auto simp: write_json_def split: write_behaviour.splits)
  have l: "loaded fs = rs" using e rs by (simp add: loaded_def)
  have "scan_records fname rs = Inr idx" using i rs by (simp add: find_record_def)
  moreover have "data = JArr (case idx of None \<Rightarrow> rs @ [JObj d] | Some i \<Rightarrow> rs[i := JObj d])"
    using pr rs by (auto simp: put_record_def split: option.splits)
  ultimately show ?thesis using p ow f e rs l fs' by auto
qed

lemma filter_update_same:
  "i < length xs \<Longrightarrow> P (xs ! i) \<Longrightarrow> P y \<Longrightarrow>
     length (filter P (xs[i := y])) = length (filter P xs)"
proof (induction xs arbitrary: i)
  case Nil
  then show ?case by simp
next
  case (Cons x xs)
  then show ?case by (cases i) auto
qed

lemma filenames_update_same:
  "i < length rs \<Longrightarrow> filename_of (rs ! i) = filename_of new \<Longrightarrow>
     filenames (rs[i := new]) = filenames rs"
proof (induction rs arbitrary: i)
  case Nil
  then show ?case by simp
next
  case (Cons r rs)
  then show ?case by (cases i) (auto simp: filenames_def map_filter_simps split: option.splits)
qed

lemma filenames_append:
  "filenames (rs @ [new]) = filenames rs @ (case filename_of new of None \<Rightarrow> [] | Some f \<Rightarrow> [f])"
  by (induction rs) (auto simp: filenames_def map_filter_simps split: option.splits)

lemma set_filenames: "f \<in> set (filenames rs) = (\<exists>r\<in>set rs. has_filename f r)"
  by (induction rs) (auto simp: filenames_def map_filter_simps has_filename_iff split: option.splits)

lemma loaded_after_write:
  "loaded (fs\<lparr>content := Doc (JArr rs)\<rparr>) = (if readable fs then rs else [])"
  by (simp add: loaded_def read_existing_def)

lemma loaded_unreadable: "\<not> readable fs \<Longrightarrow> loaded fs = []"
  by (simp add: loaded_def read_existing_def split: file_content.splits)

lemma filter_singleton_nth:
  assumes "length (filter P xs) = 1" "i < length xs" "P (xs ! i)"
  shows "filter P xs = [xs ! i]"
proof -
  from assms(1) obtain y where y: "filter P xs = [y]"
    by (cases "filter P xs") auto
  have "xs ! i \<in> set (filter P xs)" using assms(2,3) by simp
  with y show ?thesis by simp
qed

lemma first_match_unique:
  assumes "has_filename f (rs ! i)" "\<forall>j<i. \<not> has_filename f (rs ! j)"
    and "has_filename f (rs ! k)" "\<forall>j<k. \<not> has_filename f (rs ! j)"
  shows "i = k"
  using assms by (meson nat_neq_iff)

text \<open>What replacing the first match, or appending when there is none, does to a list.\<close>

lemma put_facts:
  assumes sc: "scan_records (JStr f) rs = Inr idx"
    and new: "has_filename f new"
    and rs': "rs' = (case idx of None \<Rightarrow> rs @ [new] | Some i \<Rightarrow> rs[i := new])"
  shows "\<forall>i<length rs. has_filename f (rs ! i) \<and> (\<forall>j<i. \<not> has_filename f (rs ! j))
           \<longrightarrow> rs' = rs[i := new]"
    and "length (filter (has_filename f) rs') = max 1 (length (filter (has_filename f) rs))"
    and "unique_filenames rs' = unique_filenames rs"
    and "scan_records (JStr f) rs' = Inr (Some (case idx of None \<Rightarrow> length rs | Some i \<Rightarrow> i))"
proof -
  show "\<forall>i<length rs. has_filename f (rs ! i) \<and> (\<forall>j<i. \<not> has_filename f (rs ! j))
           \<longrightarrow> rs' = rs[i := new]"
  proof (cases idx)
    case None
    with scan_records_None[OF sc[unfolded None]] show ?thesis by auto
  next
    case (Some k)
    from scan_records_Some[OF sc[unfolded Some]] have
      k: "has_filename f (rs ! k)" "\<forall>j<k. \<not> has_filename f (rs ! j)" by auto
    show ?thesis
    proof (intro allI impI)
      fix i assume "i < length rs"
        and "has_filename f (rs ! i) \<and> (\<forall>j<i. \<not> has_filename f (rs ! j))"
      with k have "i = k" by (meson nat_neq_iff)
      with rs' Some show "rs' = rs[i := new]" by simp
    qed
  qed
  show "length (filter (has_filename f) rs') = max 1 (length (filter (has_filename f) rs))"
  proof (cases idx)
    case None
    from scan_records_None[OF sc[unfolded None]] have "filter (has_filename f) rs = []"
      by (simp add: filter_empty_conv)
    with rs' None new show ?thesis by simp
  next
    case (Some k)
    from scan_records_Some[OF sc[unfolded Some]] have
      k: "k < length rs" "has_filename f (rs ! k)" by auto
    then have "rs ! k \<in> set (filter (has_filename f) rs)" by simp
    then have "1 \<le> length (filter (has_filename f) rs)"
      by (cases "filter (has_filename f) rs") auto
    with rs' Some filter_update_same[OF k new] show ?thesis by simp
  qed
  show "unique_filenames rs' = unique_filenames rs"
  proof (cases idx)
    case None
    from scan_records_None[OF sc[unfolded None]] have "f \<notin> set (filenames rs)"
      by (simp add: set_filenames)
    moreover have "filename_of new = Some f" using new by (simp add: has_filename_iff)
    ultimately show ?thesis using rs' None
      by (simp add: unique_filenames_def filenames_append)
  next
    case (Some k)
    from scan_records_Some[OF sc[unfolded Some]] have
      k: "k < length rs" "has_filename f (rs ! k)" by auto
    then have "filename_of (rs ! k) = filename_of new" using new by (simp add: has_filename_iff)
    with rs' Some filenames_update_same[OF k(1)] show ?thesis
      by (simp add: unique_filenames_def)
  qed
  show "scan_records (JStr f) rs' = Inr (Some (case idx of None \<Rightarrow> length rs | Some i \<Rightarrow> i))"
  proof (cases idx)
    case None
    have "scan_records (JStr f) (rs @ [new]) = Inr (Some (length rs))" if
      "scan_records (JStr f) rs = Inr None" for rs
      using that new
      by (induction rs) (auto simp: has_filename_def split: json.splits if_splits sum.splits option.splits)
    with sc None rs' show ?thesis by simp
  next
    case (Some k)
    have "scan_records (JStr f) (rs[k := new]) = Inr (Some k)" if
      "scan_records (JStr f) rs = Inr (Some k)" for rs k
      using that new
    proof (induction rs arbitrary: k)
      case Nil
      then show ?case by simp
    next
      case (Cons r rs)
      then show ?case
        by (cases k)
          (auto simp: has_filename_def split: json.splits if_splits sum.splits option.splits)
    qed
    with sc Some rs' show ?thesis by simp
  qed
qed

section \<open>The parser against the grammar\<close>

text \<open>
  The matcher accepts exactly the texts that the grammar generates from well-formed
  groups, and those texts followed by one line feed; on eight digits \<^verbatim>\<open>strptime\<close>
  succeeds exactly on the calendar dates. So the parser returns a record exactly for the
  well-formed names with a calendar date, with or without a line feed after them.
\<close>

lemma digit_val_simps:
  "digit_val CHR ''0'' = 0" "digit_val CHR ''1'' = 1" "digit_val CHR ''2'' = 2"
  "digit_val CHR ''3'' = 3" "digit_val CHR ''4'' = 4" "digit_val CHR ''5'' = 5"
  "digit_val CHR ''6'' = 6" "digit_val CHR ''7'' = 7" "digit_val CHR ''8'' = 8"
  "digit_val CHR ''9'' = 9"
  by (simp_all add: digit_val_def)

lemma py_int_2: "py_int [a, b] = 10 * digit_val a + digit_val b"
  by (simp add: py_int_def)

lemma py_int_1: "py_int [a] = digit_val a"
  by (simp add: py_int_def)

lemma digit_facts:
  "\<forall>c\<in>set ''0123456789''. digit_val c \<le> 9 \<and> digit_char (digit_val c) = c \<and>
      (c \<in> set ''123456789'') = (c \<noteq> CHR ''0'') \<and> c \<noteq> CHR '' ''"
  by (simp add: digit_val_simps digit_char_def)

lemma two_digit_month_all:
  "\<forall>a\<in>set ''0123456789''. \<forall>b\<in>set ''0123456789''.
     (a = CHR ''1'' \<and> b \<in> set ''012'' \<or> a = CHR ''0'' \<and> b \<in> set ''123456789'')
      = (1 \<le> py_int [a, b] \<and> py_int [a, b] \<le> 12)"
  by (simp add: py_int_2 digit_val_simps)

lemma two_digit_day_all:
  "\<forall>c\<in>set ''0123456789''. \<forall>e\<in>set ''0123456789''.
     (c = CHR ''3'' \<and> e \<in> set ''01'' \<or> c \<in> set ''12'' \<and> is_digit e \<or>
         c = CHR ''0'' \<and> e \<in> set ''123456789'')
      = (1 \<le> py_int [c, e] \<and> py_int [c, e] \<le> 31)"
  by (simp add: py_int_2 digit_val_simps is_digit_def)

lemma digit_all:
  assumes "is_digit c"
  shows "digit_val c \<le> 9" and "digit_char (digit_val c) = c"
    and "(c \<in> set ''123456789'') = (c \<noteq> CHR ''0'')" and "c \<noteq> CHR '' ''"
  using digit_facts[rule_format, OF assms[unfolded is_digit_def]] by blast+

lemmas digit_val_le = digit_all(1)
lemmas digit_char_val = digit_all(2)
lemmas nonzero_digit = digit_all(3)
lemmas digit_not_space = digit_all(4)

lemma two_digit_month:
  assumes "is_digit a" "is_digit b"
  shows "(a = CHR ''1'' \<and> b \<in> set ''012'' \<or> a = CHR ''0'' \<and> b \<in> set ''123456789'')
      = (1 \<le> py_int [a, b] \<and> py_int [a, b] \<le> 12)"
  by (rule two_digit_month_all[rule_format, OF assms(1)[unfolded is_digit_def]
        assms(2)[unfolded is_digit_def]])

lemma two_digit_day:
  assumes "is_digit c" "is_digit e"
  shows "(c = CHR ''3'' \<and> e \<in> set ''01'' \<or> c \<in> set ''12'' \<and> is_digit e \<or>
         c = CHR ''0'' \<and> e \<in> set ''123456789'')
      = (1 \<le> py_int [c, e] \<and> py_int [c, e] \<le> 31)"
  by (rule two_digit_day_all[rule_format, OF assms(1)[unfolded is_digit_def]
        assms(2)[unfolded is_digit_def]])

lemma month_alts_digits:
  assumes "is_digit a" "is_digit b"
  shows "month_alts (a # b # r) =
     (if 1 \<le> py_int [a, b] \<and> py_int [a, b] \<le> 12 then [(py_int [a, b], r)] else []) @
     (if a \<noteq> CHR ''0'' then [(py_int [a], b # r)] else [])"
proof -
  have "month_alts (a # b # r) =
     (if a = CHR ''1'' \<and> b \<in> set ''012'' \<or> a = CHR ''0'' \<and> b \<in> set ''123456789''
      then [(py_int [a, b], r)] else []) @
     (if a \<in> set ''123456789'' then [(py_int [a], b # r)] else [])"
    unfolding month_alts_def by (cases "a = CHR ''1''"; cases "a = CHR ''0''") simp_all
  then show ?thesis
    unfolding two_digit_month[OF assms] nonzero_digit[OF assms(1)] .
qed

lemma day_alts_digits:
  assumes "is_digit c" "is_digit e"
  shows "day_alts (c # e # r) =
     (if 1 \<le> py_int [c, e] \<and> py_int [c, e] \<le> 31 then [(py_int [c, e], r)] else []) @
     (if c \<noteq> CHR ''0'' then [(py_int [c], e # r)] else [])"
proof -
  have "day_alts (c # e # r) =
     (if c = CHR ''3'' \<and> e \<in> set ''01'' \<or> c \<in> set ''12'' \<and> is_digit e \<or>
         c = CHR ''0'' \<and> e \<in> set ''123456789''
      then [(py_int [c, e], r)] else []) @
     (if c \<in> set ''123456789'' then [(py_int [c], e # r)] else [])"
    unfolding day_alts_def using digit_not_space[OF assms(1)]
    by (cases "c = CHR ''3''"; cases "c = CHR ''0''"; cases "c \<in> set ''12''") auto
  then show ?thesis
    unfolding two_digit_day[OF assms] nonzero_digit[OF assms(1)] .
qed

lemma day_alts_rest: "(dd, r') \<in> set (day_alts s) \<Longrightarrow> length s \<le> length r' + 2"
  unfolding day_alts_def by (cases s; cases "tl s") (auto split: if_splits)

lemma days_in_month_le: "days_in_month y m \<le> 31"
  by (simp add: days_in_month_def)

lemma py_int_4_le:
  assumes "is_digit y1" "is_digit y2" "is_digit y3" "is_digit y4"
  shows "py_int [y1, y2, y3, y4] \<le> 9999"
  using digit_val_le[OF assms(1)] digit_val_le[OF assms(2)] digit_val_le[OF assms(3)]
    digit_val_le[OF assms(4)]
  by (simp add: py_int_def)

lemma first_match_all_rest:
  assumes "\<forall>(m, dd, r')\<in>set cs. r' \<noteq> []"
  shows "(case cs of [] \<Rightarrow> Inl ValueError
          | (m, dd, r') # _ \<Rightarrow> if r' \<noteq> [] then Inl ValueError else X m dd) = Inl ValueError"
  using assms by (cases cs) auto

lemma strptime_eight:
  assumes len: "length d = 8" and dig: "list_all is_digit d"
  shows "strptime_Ymd d =
     (if calendar_date d
      then Inr \<lparr>year = py_int (take 4 d), month = py_int (take 2 (drop 4 d)),
                day = py_int (drop 6 d)\<rparr>
      else Inl ValueError)"
proof -
  from len obtain y1 y2 y3 y4 a b c e where d: "d = [y1, y2, y3, y4, a, b, c, e]"
    by (auto simp: length_Suc_conv eval_nat_numeral)
  from dig d have dg: "is_digit y1" "is_digit y2" "is_digit y3" "is_digit y4"
    "is_digit a" "is_digit b" "is_digit c" "is_digit e" by simp_all
  define y where "y = py_int [y1, y2, y3, y4]"
  define M where "M = py_int [a, b]"
  define D where "D = py_int [c, e]"
  have y9: "y \<le> 9999" unfolding y_def by (rule py_int_4_le[OF dg(1-4)])
  have cal: "calendar_date d = (1 \<le> y \<and> 1 \<le> M \<and> M \<le> 12 \<and> 1 \<le> D \<and> D \<le> days_in_month y M)"
    by (simp add: calendar_date_def d y_def M_def D_def Let_def)
  define F :: "nat \<times> string \<Rightarrow> (nat \<times> nat \<times> string) list" where
    "F = (\<lambda>(m, r). map (\<lambda>(dd, r'). (m, dd, r')) (day_alts r))"
  define tail where
    "tail = concat (map F (if a \<noteq> CHR ''0'' then [(py_int [a], [b, c, e])] else []))"
  have tail: "\<forall>(m, dd, r')\<in>set tail. r' \<noteq> []"
    unfolding tail_def F_def by (auto dest: day_alts_rest split: if_splits)
  define cands where "cands = concat (map F (month_alts [a, b, c, e]))"
  have st: "strptime_Ymd d =
     (case cands of [] \<Rightarrow> Inl ValueError
      | (m, dd, r') # _ \<Rightarrow> if r' \<noteq> [] then Inl ValueError else make_date y m dd)"
  proof -
    have t4: "take 4 d = [y1, y2, y3, y4]" "drop 4 d = [a, b, c, e]" by (simp_all add: d)
    have ok: "\<not> (length d < 4 \<or> \<not> list_all is_digit (take 4 d))"
      using dg(1-4) by (simp add: d)
    show ?thesis
      unfolding strptime_Ymd_def if_not_P[OF ok] unfolding t4 cands_def y_def F_def ..
  qed
  have ma: "month_alts [a, b, c, e] =
      (if 1 \<le> M \<and> M \<le> 12 then [(M, [c, e])] else []) @
      (if a \<noteq> CHR ''0'' then [(py_int [a], [b, c, e])] else [])"
    unfolding M_def by (rule month_alts_digits[OF dg(5,6)])
  have da: "day_alts [c, e] =
      (if 1 \<le> D \<and> D \<le> 31 then [(D, [])] else []) @
      (if c \<noteq> CHR ''0'' then [(py_int [c], [e])] else [])"
    unfolding D_def by (rule day_alts_digits[OF dg(7,8)])
  have c1: "cands = concat (map F (if 1 \<le> M \<and> M \<le> 12 then [(M, [c, e])] else [])) @ tail"
    unfolding cands_def ma tail_def by (simp only: map_append concat_append)
  have c2: "concat (map F (if 1 \<le> M \<and> M \<le> 12 then [(M, [c, e])] else [])) =
     (if 1 \<le> M \<and> M \<le> 12
      then (if 1 \<le> D \<and> D \<le> 31 then [(M, D, [])] else []) @
           (if c \<noteq> CHR ''0'' then [(M, py_int [c], [e])] else [])
      else [])"
  proof (cases "1 \<le> M \<and> M \<le> 12")
    case True
    have "F (M, [c, e]) = (if 1 \<le> D \<and> D \<le> 31 then [(M, D, [])] else []) @
           (if c \<noteq> CHR ''0'' then [(M, py_int [c], [e])] else [])"
      unfolding F_def prod.case da by simp
    then show ?thesis unfolding if_P[OF True] by simp
  next
    case False
    show ?thesis unfolding if_not_P[OF False] by simp
  qed
  have cands: "cands =
     (if 1 \<le> M \<and> M \<le> 12
      then (if 1 \<le> D \<and> D \<le> 31 then [(M, D, [])] else []) @
           (if c \<noteq> CHR ''0'' then [(M, py_int [c], [e])] else [])
      else []) @ tail"
    unfolding c1 c2 ..
  show ?thesis
  proof (cases "1 \<le> M \<and> M \<le> 12 \<and> 1 \<le> D \<and> D \<le> 31")
    case True
    then have "cands = (M, D, []) # (if c \<noteq> CHR ''0'' then [(M, py_int [c], [e])] else []) @ tail"
      using cands by simp
    then have "strptime_Ymd d = make_date y M D" using st by simp
    then show ?thesis
      using True y9 cal by (simp add: make_date_def d y_def M_def D_def)
  next
    case False
    have "\<forall>(m, dd, r')\<in>set cands. r' \<noteq> []"
      using False tail unfolding cands by auto
    from first_match_all_rest[OF this] st have "strptime_Ymd d = Inl ValueError" by simp
    moreover have "\<not> calendar_date d"
      using False cal days_in_month_le[of y M] by auto
    ultimately show ?thesis by simp
  qed
qed

lemma lit_iff: "lit p s = Some r \<longleftrightarrow> s = p @ r"
  by (auto simp: lit_def) (metis append_take_drop_id)

lemma digits8_iff:
  "digits8 s = Some (d, r) \<longleftrightarrow> s = d @ r \<and> length d = 8 \<and> list_all is_digit d"
  by (auto simp: digits8_def min_def split: if_splits)

lemma many1_iff:
  "many1 P s = Some (x, r) \<longleftrightarrow>
     s = x @ r \<and> x \<noteq> [] \<and> list_all P x \<and> (case r of [] \<Rightarrow> True | c # r' \<Rightarrow> \<not> P c)"
proof
  assume "many1 P s = Some (x, r)"
  then have x: "x = takeWhile P s" and r: "r = dropWhile P s" and ne: "x \<noteq> []"
    by (auto simp: many1_def split: if_splits)
  have "s = x @ r" using x r by simp
  moreover have "list_all P x" using x by (auto simp: list_all_iff dest: set_takeWhileD)
  moreover have "case r of [] \<Rightarrow> True | c # r' \<Rightarrow> \<not> P c"
  proof (cases r)
    case Nil
    then show ?thesis by simp
  next
    case (Cons c r')
    with r have "dropWhile P s = c # r'" by simp
    then have "\<not> P c" by (metis hd_dropWhile list.sel(1) list.distinct(1))
    with Cons show ?thesis by simp
  qed
  ultimately show "s = x @ r \<and> x \<noteq> [] \<and> list_all P x \<and>
      (case r of [] \<Rightarrow> True | c # r' \<Rightarrow> \<not> P c)"
    using ne by simp
next
  assume h: "s = x @ r \<and> x \<noteq> [] \<and> list_all P x \<and>
      (case r of [] \<Rightarrow> True | c # r' \<Rightarrow> \<not> P c)"
  then have all: "\<forall>c\<in>set x. P c" by (simp add: list_all_iff)
  have "takeWhile P s = x \<and> dropWhile P s = r"
  proof (cases r)
    case Nil
    with h all show ?thesis by simp
  next
    case (Cons c r')
    with h have "\<not> P c" by simp
    with h all Cons show ?thesis by (simp add: takeWhile_tail dropWhile_append3)
  qed
  with h show "many1 P s = Some (x, r)" by (simp add: many1_def)
qed

lemma re_match_iff:
  "re_match s = Some (d, p, f, a, m) \<longleftrightarrow>
     well_formed d p f a m \<and>
     (s = archive_name d p f a m \<or> s = archive_name d p f a m @ [CHR 0x0A])"
proof
  assume "re_match s = Some (d, p, f, a, m)"
  then obtain r0 r1 r2 r3 r4 r5 r6 r7 r8 r9 r10 where
    "lit ''chalaoshi_csv'' s = Some r0" "digits8 r0 = Some (d, r1)" "lit ''_'' r1 = Some r2"
    "many1 is_digit r2 = Some (p, r3)" "lit ''_'' r3 = Some r4"
    "many1 is_digit r4 = Some (f, r5)" "lit ''_'' r5 = Some r6"
    "many1 (\<lambda>c. c \<noteq> CHR ''_'') r6 = Some (a, r7)" "lit ''_'' r7 = Some r8"
    "many1 (\<lambda>c. c \<noteq> CHR ''.'') r8 = Some (m, r9)" "lit ''.zip'' r9 = Some r10" "dollar r10"
    unfolding re_match_def
    by (auto simp: bind_eq_Some_conv split: if_splits)
  then show "well_formed d p f a m \<and>
     (s = archive_name d p f a m \<or> s = archive_name d p f a m @ [CHR 0x0A])"
    unfolding lit_iff digits8_iff many1_iff
    by (auto simp: well_formed_def archive_name_def dollar_def)
next
  assume h: "well_formed d p f a m \<and>
     (s = archive_name d p f a m \<or> s = archive_name d p f a m @ [CHR 0x0A])"
  then obtain e where e: "dollar e"
    and s: "s = ''chalaoshi_csv'' @ d @ ''_'' @ p @ ''_'' @ f @ ''_'' @ a @ ''_'' @ m @ ''.zip'' @ e"
    by (auto simp: archive_name_def dollar_def)
  from h have wf: "length d = 8" "list_all is_digit d" "p \<noteq> []" "list_all is_digit p"
    "f \<noteq> []" "list_all is_digit f" "a \<noteq> []" "list_all (\<lambda>c. c \<noteq> CHR ''_'') a"
    "m \<noteq> []" "list_all (\<lambda>c. c \<noteq> CHR ''.'') m"
    by (simp_all add: well_formed_def)
  define r9 where "r9 = ''.zip'' @ e"
  define r8 where "r8 = m @ r9"
  define r7 where "r7 = ''_'' @ r8"
  define r6 where "r6 = a @ r7"
  define r5 where "r5 = ''_'' @ r6"
  define r4 where "r4 = f @ r5"
  define r3 where "r3 = ''_'' @ r4"
  define r2 where "r2 = p @ r3"
  define r1 where "r1 = ''_'' @ r2"
  define r0 where "r0 = d @ r1"
  have 0: "lit ''chalaoshi_csv'' s = Some r0"
    unfolding lit_iff s r0_def r1_def r2_def r3_def r4_def r5_def r6_def r7_def r8_def r9_def
    by simp
  have 1: "digits8 r0 = Some (d, r1)" unfolding digits8_iff r0_def using wf by simp
  have 2: "lit ''_'' r1 = Some r2" unfolding lit_iff r1_def by simp
  have 3: "many1 is_digit r2 = Some (p, r3)"
    unfolding many1_iff r2_def r3_def using wf by (simp add: is_digit_def)
  have 4: "lit ''_'' r3 = Some r4" unfolding lit_iff r3_def by simp
  have 5: "many1 is_digit r4 = Some (f, r5)"
    unfolding many1_iff r4_def r5_def using wf by (simp add: is_digit_def)
  have 6: "lit ''_'' r5 = Some r6" unfolding lit_iff r5_def by simp
  have 7: "many1 (\<lambda>c. c \<noteq> CHR ''_'') r6 = Some (a, r7)"
    unfolding many1_iff r6_def r7_def using wf by simp
  have 8: "lit ''_'' r7 = Some r8" unfolding lit_iff r7_def by simp
  have 9: "many1 (\<lambda>c. c \<noteq> CHR ''.'') r8 = Some (m, r9)"
    unfolding many1_iff r8_def r9_def using wf by simp
  have 10: "lit ''.zip'' r9 = Some e" unfolding lit_iff r9_def by simp
  show "re_match s = Some (d, p, f, a, m)"
    unfolding re_match_def using e by (simp add: 0 1 2 3 4 5 6 7 8 9 10)
qed

lemma parse_archive_filename_iff:
  "parse_archive_filename s = Some info \<longleftrightarrow>
     (\<exists>d p f a m. well_formed d p f a m \<and> calendar_date d \<and>
        (s = archive_name d p f a m \<or> s = archive_name d p f a m @ [CHR 0x0A]) \<and>
        info = \<lparr>filename = s, date_str = d, post_id = p, floor_number = f,
                 author_id = a, encryption_method = m\<rparr>)"
proof
  assume "parse_archive_filename s = Some info"
  then obtain d p f a m dt where rm: "re_match s = Some (d, p, f, a, m)"
    and sp: "strptime_Ymd d = Inr dt"
    and info: "info = \<lparr>filename = s, date_str = d, post_id = p, floor_number = f,
                 author_id = a, encryption_method = m\<rparr>"
    by (auto simp: parse_archive_filename_def split: option.splits sum.splits)
  from rm have wf: "well_formed d p f a m"
    and s: "s = archive_name d p f a m \<or> s = archive_name d p f a m @ [CHR 0x0A]"
    by (simp_all add: re_match_iff)
  from wf have "length d = 8" "list_all is_digit d" by (simp_all add: well_formed_def)
  from strptime_eight[OF this] sp have "calendar_date d" by (simp split: if_splits)
  with wf s info show "\<exists>d p f a m. well_formed d p f a m \<and> calendar_date d \<and>
        (s = archive_name d p f a m \<or> s = archive_name d p f a m @ [CHR 0x0A]) \<and>
        info = \<lparr>filename = s, date_str = d, post_id = p, floor_number = f,
                 author_id = a, encryption_method = m\<rparr>" by blast
next
  assume "\<exists>d p f a m. well_formed d p f a m \<and> calendar_date d \<and>
        (s = archive_name d p f a m \<or> s = archive_name d p f a m @ [CHR 0x0A]) \<and>
        info = \<lparr>filename = s, date_str = d, post_id = p, floor_number = f,
                 author_id = a, encryption_method = m\<rparr>"
  then obtain d p f a m where wf: "well_formed d p f a m" and cal: "calendar_date d"
    and s: "s = archive_name d p f a m \<or> s = archive_name d p f a m @ [CHR 0x0A]"
    and info: "info = \<lparr>filename = s, date_str = d, post_id = p, floor_number = f,
                 author_id = a, encryption_method = m\<rparr>" by blast
  from wf s have rm: "re_match s = Some (d, p, f, a, m)" by (simp add: re_match_iff)
  from wf have "length d = 8" "list_all is_digit d" by (simp_all add: well_formed_def)
  from strptime_eight[OF this] cal obtain dt where "strptime_Ymd d = Inr dt" by simp
  with rm info show "parse_archive_filename s = Some info"
    by (simp add: parse_archive_filename_def)
qed

lemma parse_archive_filename_None_iff:
  "parse_archive_filename s = None \<longleftrightarrow>
     \<not> (\<exists>d p f a m. well_formed d p f a m \<and> calendar_date d \<and>
           (s = archive_name d p f a m \<or> s = archive_name d p f a m @ [CHR 0x0A]))"
proof -
  have "parse_archive_filename s \<noteq> None \<longleftrightarrow>
     (\<exists>d p f a m. well_formed d p f a m \<and> calendar_date d \<and>
           (s = archive_name d p f a m \<or> s = archive_name d p f a m @ [CHR 0x0A]))"
    using parse_archive_filename_iff[of s] by (metis not_Some_eq)
  then show ?thesis by blast
qed

text \<open>
  The formatted date of a parsed name is its eight digits with hyphens inserted, wherever
  the C library pads the year or the year has four significant digits.
\<close>

lemma py_int_snoc: "py_int (ds @ [c]) = 10 * py_int ds + digit_val c"
  by (simp add: py_int_def)

lemma digit_char_mod: "v < 10 \<Longrightarrow> digit_char (10 * k + v) = digit_char v"
  by (simp add: digit_char_def)

lemma decimal_step:
  "v < 10 \<Longrightarrow> decimal (10 * k + v) = (if k = 0 then [] else decimal k) @ [digit_char v]"
  by (cases "k = 0") (simp_all add: decimal_small decimal_large digit_char_mod)

lemma decimal_nonempty: "decimal n \<noteq> []"
  by (cases "n < 10") (simp_all add: decimal_small decimal_large)

lemma zfill_digits:
  "list_all is_digit ds \<Longrightarrow> ds \<noteq> [] \<Longrightarrow>
     zfill (length ds) (decimal (py_int ds)) = ds \<and> length (decimal (py_int ds)) \<le> length ds"
proof (induction ds rule: rev_induct)
  case Nil
  then show ?case by simp
next
  case (snoc c ds)
  from snoc.prems have c: "is_digit c" and ds: "list_all is_digit ds" by simp_all
  have v: "digit_val c < 10" using digit_val_le[OF c] by simp
  have dc: "digit_char (digit_val c) = c" by (rule digit_char_val[OF c])
  show ?case
  proof (cases "ds = []")
    case True
    then show ?thesis using v dc by (simp add: py_int_def decimal_small zfill_def)
  next
    case False
    from snoc.IH[OF ds False] have ih: "zfill (length ds) (decimal (py_int ds)) = ds"
      and le: "length (decimal (py_int ds)) \<le> length ds" by simp_all
    show ?thesis
    proof (cases "py_int ds = 0")
      case True
      have "decimal 0 = [CHR ''0'']" by (simp add: decimal_small digit_char_def)
      with ih True have "ds = replicate (length ds - 1) (CHR ''0'') @ [CHR ''0'']"
        by (simp add: zfill_def)
      then have "ds = replicate (length ds) (CHR ''0'')"
        using False by (metis length_append_singleton length_replicate replicate_append_same
            replicate_Suc)
      then have "replicate (length ds) (CHR ''0'') = ds" by simp
      then show ?thesis
        using True v dc by (simp add: py_int_snoc decimal_small zfill_def)
    next
      case nz: False
      have "decimal (py_int (ds @ [c])) = decimal (py_int ds) @ [c]"
        using decimal_step[OF v, of "py_int ds"] nz dc by (simp add: py_int_snoc)
      then show ?thesis using ih le by (simp add: zfill_def Suc_diff_le)
    qed
  qed
qed

lemma length_decimal: "10 ^ k \<le> n \<Longrightarrow> k < length (decimal n)"
proof (induction k arbitrary: n)
  case 0
  then show ?case using decimal_nonempty[of n] by (cases "decimal n") simp_all
next
  case (Suc k)
  then have "10 \<le> n" by (metis One_nat_def le_trans one_le_numeral one_le_power power_Suc
        mult.right_neutral mult_le_mono2)
  moreover from Suc.prems have "10 ^ k \<le> n div 10"
    by (simp add: less_eq_div_iff_mult_less_eq mult.commute)
  ultimately show ?case using Suc.IH[of "n div 10"] by (simp add: decimal_large)
qed

lemma strftime_hyphenated:
  assumes len: "length d = 8" and dig: "list_all is_digit d"
    and rt: "rt = Padded \<or> 1000 \<le> py_int (take 4 d)"
  shows "strftime_Y_m_d rt \<lparr>year = py_int (take 4 d), month = py_int (take 2 (drop 4 d)),
                day = py_int (drop 6 d)\<rparr> = hyphenated d"
proof -
  have part: "zfill (length x) (decimal (py_int x)) = x"
    if "set x \<subseteq> set d" "x \<noteq> []" for x
  proof -
    from that(1) dig have "list_all is_digit x" by (auto simp: list_all_iff)
    from zfill_digits[OF this that(2)] show ?thesis by simp
  qed
  have y: "zfill 4 (decimal (py_int (take 4 d))) = take 4 d"
  proof -
    have sub: "set (take 4 d) \<subseteq> set d" by (rule set_take_subset)
    have l: "length (take 4 d) = 4" using len by simp
    then have ne: "take 4 d \<noteq> []" by auto
    from part[OF sub ne] show ?thesis unfolding l .
  qed
  have m: "zfill 2 (decimal (py_int (take 2 (drop 4 d)))) = take 2 (drop 4 d)"
  proof -
    have sub: "set (take 2 (drop 4 d)) \<subseteq> set d"
      by (meson set_take_subset set_drop_subset subset_trans)
    have l: "length (take 2 (drop 4 d)) = 2" using len by simp
    then have ne: "take 2 (drop 4 d) \<noteq> []" by auto
    from part[OF sub ne] show ?thesis unfolding l .
  qed
  have dd: "zfill 2 (decimal (py_int (drop 6 d))) = drop 6 d"
  proof -
    have sub: "set (drop 6 d) \<subseteq> set d" by (rule set_drop_subset)
    have l: "length (drop 6 d) = 2" using len by simp
    then have ne: "drop 6 d \<noteq> []" by auto
    from part[OF sub ne] show ?thesis unfolding l .
  qed
  have yu: "decimal (py_int (take 4 d)) = take 4 d" if "1000 \<le> py_int (take 4 d)"
  proof -
    have "(10::nat) ^ 3 \<le> py_int (take 4 d)" using that by simp
    from length_decimal[OF this] have "zfill 4 (decimal (py_int (take 4 d)))
        = decimal (py_int (take 4 d))"
      by (simp add: zfill_def)
    with y show ?thesis by simp
  qed
  show ?thesis
  proof (cases rt)
    case Padded
    then show ?thesis by (simp add: strftime_Y_m_d_def hyphenated_def y m dd)
  next
    case Unpadded
    with rt have "1000 \<le> py_int (take 4 d)" by simp
    with Unpadded show ?thesis by (simp add: strftime_Y_m_d_def hyphenated_def yu m dd)
  qed
qed

lemma date_formatted_hyphenated:
  assumes p: "parse_archive_filename s = Some info"
    and rt: "rt = Padded \<or> 1000 \<le> py_int (take 4 (date_str info))"
  shows "\<exists>dct. to_dict rt info = Inr dct \<and>
           dict_get dct ''date_formatted'' = JStr (hyphenated (date_str info))"
proof -
  from p obtain d pp f a m where wf: "well_formed d pp f a m" and cal: "calendar_date d"
    and info: "info = \<lparr>filename = s, date_str = d, post_id = pp, floor_number = f,
                 author_id = a, encryption_method = m\<rparr>"
    unfolding parse_archive_filename_iff by blast
  from wf have ld: "length d = 8" "list_all is_digit d" by (simp_all add: well_formed_def)
  have ds: "date_str info = d" by (simp add: info)
  have sp: "strptime_Ymd d = Inr \<lparr>year = py_int (take 4 d),
      month = py_int (take 2 (drop 4 d)), day = py_int (drop 6 d)\<rparr>"
    using strptime_eight[OF ld] cal by simp
  have fm: "strftime_Y_m_d rt \<lparr>year = py_int (take 4 d), month = py_int (take 2 (drop 4 d)),
                day = py_int (drop 6 d)\<rparr> = hyphenated d"
    using strftime_hyphenated[OF ld] rt ds by simp
  show ?thesis
    unfolding to_dict_def date_def ds sp by (simp add: fm dict_get_def)
qed

section \<open>The example of the specification\<close>

text \<open>
  Claim C3. Parsing \<^verbatim>\<open>chalaoshi_csv20250502_5399305_2696_26893D_sha256.zip\<close> succeeds,
  and the dictionary that is persisted for the record holds the formatted date
  \<^verbatim>\<open>2025-05-02\<close>, post id \<^verbatim>\<open>5399305\<close>, floor number \<^verbatim>\<open>2696\<close>, the author id
  \<^verbatim>\<open>26893D\<close> behind the anonymity prefix, the method \<^verbatim>\<open>sha256\<close> and the forum address
  \<^verbatim>\<open>https://cc98.org/5399305/\<close>, whatever the C library does with \<^verbatim>\<open>%Y\<close>. The keys are
  those the source writes (\<^verbatim>\<open>date_formatted\<close> for the specification's
  \<^verbatim>\<open>dateFormatted\<close>, and so on).
\<close>

theorem parse_concrete_scenario:
  "parse_archive_filename ''chalaoshi_csv20250502_5399305_2696_26893D_sha256.zip''
     = Some \<lparr>filename = ''chalaoshi_csv20250502_5399305_2696_26893D_sha256.zip'',
             date_str = ''20250502'', post_id = ''5399305'', floor_number = ''2696'',
             author_id = ''26893D'', encryption_method = ''sha256''\<rparr>
   \<and> to_dict rt \<lparr>filename = ''chalaoshi_csv20250502_5399305_2696_26893D_sha256.zip'',
             date_str = ''20250502'', post_id = ''5399305'', floor_number = ''2696'',
             author_id = ''26893D'', encryption_method = ''sha256''\<rparr>
     = Inr [(''filename'', JStr ''chalaoshi_csv20250502_5399305_2696_26893D_sha256.zip''),
            (''date_str'', JStr ''20250502''),
            (''date_formatted'', JStr ''2025-05-02''),
            (''post_id'', JStr ''5399305''),
            (''floor_number'', JStr ''2696''),
            (''author_id'', JStr (anonymous @ ''26893D'')),
            (''encryption_method'', JStr ''sha256''),
            (''forum_url'', JStr ''https://cc98.org/5399305/''),
            (''password_description'',
               JStr (''https://cc98.org/5399305/ '' @ word_in @ '' 2696'' @ word_floor @ '' ''
                     @ anonymous @ ''26893D '' @ word_posted @ ''sha256'' @ word_hash))]"
proof (rule conjI)
  show "parse_archive_filename ''chalaoshi_csv20250502_5399305_2696_26893D_sha256.zip''
     = Some \<lparr>filename = ''chalaoshi_csv20250502_5399305_2696_26893D_sha256.zip'',
             date_str = ''20250502'', post_id = ''5399305'', floor_number = ''2696'',
             author_id = ''26893D'', encryption_method = ''sha256''\<rparr>"
    by (simp add: parse_defs date_defs)
next
  show "to_dict rt \<lparr>filename = ''chalaoshi_csv20250502_5399305_2696_26893D_sha256.zip'',
             date_str = ''20250502'', post_id = ''5399305'', floor_number = ''2696'',
             author_id = ''26893D'', encryption_method = ''sha256''\<rparr>
     = Inr [(''filename'', JStr ''chalaoshi_csv20250502_5399305_2696_26893D_sha256.zip''),
            (''date_str'', JStr ''20250502''),
            (''date_formatted'', JStr ''2025-05-02''),
            (''post_id'', JStr ''5399305''),
            (''floor_number'', JStr ''2696''),
            (''author_id'', JStr (anonymous @ ''26893D'')),
            (''encryption_method'', JStr ''sha256''),
            (''forum_url'', JStr ''https://cc98.org/5399305/''),
            (''password_description'',
               JStr (''https://cc98.org/5399305/ '' @ word_in @ '' 2696'' @ word_floor @ '' ''
                     @ anonymous @ ''26893D '' @ word_posted @ ''sha256'' @ word_hash))]"
    by (cases rt) (simp_all add: dict_defs date_defs)
qed

section \<open>The upsert on the stored list\<close>

text \<open>
  Claim C6. An upsert that reports success leaves the list it loaded as it was, except
  that the first record of the file name is replaced where it stands, or, when no record
  has the name, the new record is added at the end: every other entry keeps its place and
  its value. In particular, two records with distinct file names saved into a store that
  loads as the empty list give a list of exactly these two records, the first saved
  first.
\<close>

theorem upsert_keeps_order:
  "(save_archive_info rt info now fs = (Returns True, fs') \<longrightarrow>
      (\<exists>d. to_dict rt info = Inr d \<and>
         ((\<exists>i<length (loaded fs). has_filename (filename info) (loaded fs ! i) \<and>
              content fs' = Doc (JArr ((loaded fs)[i := JObj (d @ [(''updated_at'', JStr now)])])))
          \<or> ((\<forall>r\<in>set (loaded fs). \<not> has_filename (filename info) r) \<and>
              content fs' = Doc (JArr (loaded fs @ [JObj (d @ [(''updated_at'', JStr now)])]))))))
   \<and> (parent_ok fs0 \<and> readable fs0 \<and> on_write fs0 = WriteOk \<and> read_existing fs0 = Inr (JArr []) \<and>
      filename a \<noteq> filename b \<and> to_dict rt a = Inr da \<and> to_dict rt b = Inr db \<longrightarrow>
        save_archive_info rt b t2 (snd (save_archive_info rt a t1 fs0))
          = (Returns True,
             fs0\<lparr>content := Doc (JArr [JObj (da @ [(''updated_at'', JStr t1)]),
                                        JObj (db @ [(''updated_at'', JStr t2)])])\<rparr>))"
proof (intro conjI impI)
  assume s: "save_archive_info rt info now fs = (Returns True, fs')"
  from save_archive_info_success[OF s] obtain d idx where
    d: "to_dict rt info = Inr d" and
    sc: "scan_records (JStr (filename info)) (loaded fs) = Inr idx" and
    fs': "fs' = fs\<lparr>content := Doc (JArr (case idx of
                    None \<Rightarrow> loaded fs @ [JObj (d @ [(''updated_at'', JStr now)])]
                  | Some i \<Rightarrow> (loaded fs)[i := JObj (d @ [(''updated_at'', JStr now)])]))\<rparr>"
    by blast
  show "\<exists>d. to_dict rt info = Inr d \<and>
         ((\<exists>i<length (loaded fs). has_filename (filename info) (loaded fs ! i) \<and>
              content fs' = Doc (JArr ((loaded fs)[i := JObj (d @ [(''updated_at'', JStr now)])])))
          \<or> ((\<forall>r\<in>set (loaded fs). \<not> has_filename (filename info) r) \<and>
              content fs' = Doc (JArr (loaded fs @ [JObj (d @ [(''updated_at'', JStr now)])]))))"
  proof (cases idx)
    case None
    with scan_records_None sc have "\<forall>r\<in>set (loaded fs). \<not> has_filename (filename info) r"
      by simp
    with None d fs' show ?thesis by auto
  next
    case (Some i)
    with scan_records_Some sc have "i < length (loaded fs)"
      "has_filename (filename info) (loaded fs ! i)" by auto
    with Some d fs' show ?thesis by auto
  qed
next
  assume h: "parent_ok fs0 \<and> readable fs0 \<and> on_write fs0 = WriteOk \<and>
      read_existing fs0 = Inr (JArr []) \<and>
      filename a \<noteq> filename b \<and> to_dict rt a = Inr da \<and> to_dict rt b = Inr db"
  have first: "save_archive_info rt a t1 fs0
      = (Returns True, fs0\<lparr>content := Doc (JArr [JObj (da @ [(''updated_at'', JStr t1)])])\<rparr>)"
    using h to_dict_stamp[of rt a da]
    by (simp add: save_archive_info_def find_record_def put_record_def write_json_def)
  have nm: "dict_get (da @ [(''updated_at'', JStr t1)]) ''filename'' \<noteq> JStr (filename b)"
    using h to_dict_filename[of rt a da] by simp
  have second: "save_archive_info rt b t2
        (fs0\<lparr>content := Doc (JArr [JObj (da @ [(''updated_at'', JStr t1)])])\<rparr>)
          = (Returns True,
             fs0\<lparr>content := Doc (JArr [JObj (da @ [(''updated_at'', JStr t1)]),
                                        JObj (db @ [(''updated_at'', JStr t2)])])\<rparr>)"
    using h nm to_dict_stamp[of rt b db]
    by (simp add: save_archive_info_def read_existing_def find_record_def put_record_def
        write_json_def)
  show "save_archive_info rt b t2 (snd (save_archive_info rt a t1 fs0))
          = (Returns True,
             fs0\<lparr>content := Doc (JArr [JObj (da @ [(''updated_at'', JStr t1)]),
                                        JObj (db @ [(''updated_at'', JStr t2)])])\<rparr>)"
    by (simp add: first second)
qed

theorem upsert_keeps_order_witness:
  "save_archive_info Padded example_info ''2025-05-03T10:00:00'' fresh_fs
     = (Returns True,
        fresh_fs\<lparr>content := Doc (JArr [JObj (projr (to_dict Padded example_info)
                     @ [(''updated_at'', JStr ''2025-05-03T10:00:00'')])])\<rparr>)
   \<and> \<not> isl (to_dict Padded example_info) \<and> \<not> isl (to_dict Padded second_info)
   \<and> parent_ok fresh_fs \<and> readable fresh_fs \<and> on_write fresh_fs = WriteOk
   \<and> read_existing fresh_fs = Inr (JArr [])
   \<and> filename example_info \<noteq> filename second_info
   \<and> map filename_of (loaded (snd (save_archive_info Padded second_info ''2025-06-02T08:00:00''
        (snd (save_archive_info Padded example_info ''2025-05-03T10:00:00'' fresh_fs)))))
     = [Some (filename example_info), Some (filename second_info)]"
  using upsert_keeps_order [of Padded example_info "''2025-05-03T10:00:00''" fresh_fs
      "fresh_fs\<lparr>content := Doc (JArr [JObj (projr (to_dict Padded example_info)
                     @ [(''updated_at'', JStr ''2025-05-03T10:00:00'')])])\<rparr>"
      fresh_fs example_info second_info "projr (to_dict Padded example_info)"
      "projr (to_dict Padded second_info)" "''2025-06-02T08:00:00''" "''2025-05-03T10:00:00''"]
  by (simp add: example_to_dict second_to_dict fresh_fs_def store_defs dict_set_def loaded_def
      filename_of_def dict_get_def)
     (simp add: example_info_def second_info_def)

text \<open>
  Claim C9. After an upsert that reports success on a file that can be read, loading the
  file again and looking the file name up as the upsert does finds a record, and that
  record is the dictionary that was written: the nine entries of \<^verbatim>\<open>to_dict\<close> followed
  by \<^verbatim>\<open>updated_at\<close>, each with the value written (the specification's camel-case
  names stand for these keys).
\<close>

theorem upsert_round_trip:
  "save_archive_info rt info now fs = (Returns True, fs') \<Longrightarrow> readable fs \<Longrightarrow>
     \<exists>rs i d. read_existing fs' = Inr (JArr rs) \<and>
       find_record (JStr (filename info)) (JArr rs) = Inr (Some i) \<and> i < length rs \<and>
       to_dict rt info = Inr d \<and>
       rs ! i = JObj (d @ [(''updated_at'', JStr now)]) \<and>
       map fst (d @ [(''updated_at'', JStr now)]) =
         [''filename'', ''date_str'', ''date_formatted'', ''post_id'', ''floor_number'',
          ''author_id'', ''encryption_method'', ''forum_url'', ''password_description'',
          ''updated_at'']"
proof -
  assume s: "save_archive_info rt info now fs = (Returns True, fs')" and r: "readable fs"
  define f where "f = filename info"
  from save_archive_info_success[OF s] obtain d idx where
    d: "to_dict rt info = Inr d" and
    sc: "scan_records (JStr f) (loaded fs) = Inr idx" and
    fs': "fs' = fs\<lparr>content := Doc (JArr (case idx of
                    None \<Rightarrow> loaded fs @ [JObj (d @ [(''updated_at'', JStr now)])]
                  | Some i \<Rightarrow> (loaded fs)[i := JObj (d @ [(''updated_at'', JStr now)])]))\<rparr>"
    unfolding f_def by blast
  define new where "new = JObj (d @ [(''updated_at'', JStr now)])"
  define rs where "rs = (case idx of None \<Rightarrow> loaded fs @ [new] | Some i \<Rightarrow> (loaded fs)[i := new])"
  define k where "k = (case idx of None \<Rightarrow> length (loaded fs) | Some i \<Rightarrow> i)"
  have hn: "has_filename f new"
    using has_filename_stamped[OF d] by (simp add: new_def f_def)
  have found: "scan_records (JStr f) rs = Inr (Some k)"
    using put_facts(4)[OF sc hn rs_def] by (simp add: k_def)
  have re: "read_existing fs' = Inr (JArr rs)"
    using fs' r unfolding rs_def new_def by (simp add: read_existing_def)
  have kl: "k < length rs" using scan_records_Some[OF found] by simp
  have at: "rs ! k = new"
  proof (cases idx)
    case None
    then show ?thesis by (simp add: rs_def k_def)
  next
    case (Some i)
    with scan_records_Some[OF sc[unfolded Some]] show ?thesis by (simp add: rs_def k_def)
  qed
  have keys: "map fst (d @ [(''updated_at'', JStr now)]) =
         [''filename'', ''date_str'', ''date_formatted'', ''post_id'', ''floor_number'',
          ''author_id'', ''encryption_method'', ''forum_url'', ''password_description'',
          ''updated_at'']"
    using to_dict_keys[OF d] by simp
  show ?thesis
    using re found kl d at keys unfolding new_def f_def find_record_def by auto
qed

theorem upsert_round_trip_witness:
  "save_archive_info Padded example_info ''2025-05-03T10:00:00'' fresh_fs
     = (Returns True,
        fresh_fs\<lparr>content := Doc (JArr [JObj (projr (to_dict Padded example_info)
                     @ [(''updated_at'', JStr ''2025-05-03T10:00:00'')])])\<rparr>)
   \<and> readable fresh_fs
   \<and> read_existing (fresh_fs\<lparr>content := Doc (JArr [JObj (projr (to_dict Padded example_info)
                     @ [(''updated_at'', JStr ''2025-05-03T10:00:00'')])])\<rparr>)
     = Inr (JArr [JObj (projr (to_dict Padded example_info)
                     @ [(''updated_at'', JStr ''2025-05-03T10:00:00'')])])
   \<and> find_record (JStr (filename example_info))
        (JArr [JObj (projr (to_dict Padded example_info)
                     @ [(''updated_at'', JStr ''2025-05-03T10:00:00'')])]) = Inr (Some 0)"
  using upsert_round_trip [of Padded example_info "''2025-05-03T10:00:00''" fresh_fs
      "fresh_fs\<lparr>content := Doc (JArr [JObj (projr (to_dict Padded example_info)
                     @ [(''updated_at'', JStr ''2025-05-03T10:00:00'')])])\<rparr>"]
  by (simp add: example_to_dict fresh_fs_def store_defs dict_set_def dict_get_def)

section \<open>Stores that hold a file name twice\<close>

text \<open>
  Claim C10. Both writers replace the first record of the file name only: whatever index
  is the first match, the new list is the loaded list with that one entry replaced. The
  number of records of the name stays what it was (or becomes one when there was none),
  so later duplicates stay, and the list has unique file names after the call exactly
  when it had them before.
\<close>

theorem upsert_replaces_first_match_only:
  "(save_archive_info rt info now fs = (Returns True, fs') \<longrightarrow>
      (\<exists>d rs'. to_dict rt info = Inr d \<and> content fs' = Doc (JArr rs') \<and>
         (\<forall>i<length (loaded fs).
             has_filename (filename info) (loaded fs ! i) \<and>
             (\<forall>j<i. \<not> has_filename (filename info) (loaded fs ! j))
             \<longrightarrow> rs' = (loaded fs)[i := JObj (d @ [(''updated_at'', JStr now)])]) \<and>
         length (filter (has_filename (filename info)) rs')
           = max 1 (length (filter (has_filename (filename info)) (loaded fs))) \<and>
         unique_filenames rs' = unique_filenames (loaded fs)))
   \<and> (save_archive_info_dict dct fs = (Returns True, fs'') \<and>
      map_of dct ''filename'' = Some (JStr f) \<longrightarrow>
      (\<exists>rs'. content fs'' = Doc (JArr rs') \<and>
         (\<forall>i<length (loaded fs).
             has_filename f (loaded fs ! i) \<and> (\<forall>j<i. \<not> has_filename f (loaded fs ! j))
             \<longrightarrow> rs' = (loaded fs)[i := JObj dct]) \<and>
         length (filter (has_filename f) rs')
           = max 1 (length (filter (has_filename f) (loaded fs))) \<and>
         unique_filenames rs' = unique_filenames (loaded fs)))"
proof (intro conjI impI)
  assume s: "save_archive_info rt info now fs = (Returns True, fs')"
  from save_archive_info_success[OF s] obtain d idx where
    d: "to_dict rt info = Inr d" and
    sc: "scan_records (JStr (filename info)) (loaded fs) = Inr idx" and
    fs': "fs' = fs\<lparr>content := Doc (JArr (case idx of
                    None \<Rightarrow> loaded fs @ [JObj (d @ [(''updated_at'', JStr now)])]
                  | Some i \<Rightarrow> (loaded fs)[i := JObj (d @ [(''updated_at'', JStr now)])]))\<rparr>"
    by blast
  define new where "new = JObj (d @ [(''updated_at'', JStr now)])"
  define rs' where
    "rs' = (case idx of None \<Rightarrow> loaded fs @ [new] | Some i \<Rightarrow> (loaded fs)[i := new])"
  have hn: "has_filename (filename info) new"
    using has_filename_stamped[OF d] by (simp add: new_def)
  have c: "content fs' = Doc (JArr rs')" using fs' unfolding rs'_def new_def by simp
  from put_facts(1-3)[OF sc hn rs'_def] d c
  show "\<exists>d rs'. to_dict rt info = Inr d \<and> content fs' = Doc (JArr rs') \<and>
         (\<forall>i<length (loaded fs).
             has_filename (filename info) (loaded fs ! i) \<and>
             (\<forall>j<i. \<not> has_filename (filename info) (loaded fs ! j))
             \<longrightarrow> rs' = (loaded fs)[i := JObj (d @ [(''updated_at'', JStr now)])]) \<and>
         length (filter (has_filename (filename info)) rs')
           = max 1 (length (filter (has_filename (filename info)) (loaded fs))) \<and>
         unique_filenames rs' = unique_filenames (loaded fs)"
    unfolding new_def by blast
next
  assume h: "save_archive_info_dict dct fs = (Returns True, fs'') \<and>
      map_of dct ''filename'' = Some (JStr f)"
  from save_archive_info_dict_success[of dct fs fs''] h obtain idx where
    sc: "scan_records (JStr f) (loaded fs) = Inr idx" and
    fs'': "fs'' = fs\<lparr>content := Doc (JArr (case idx of
                    None \<Rightarrow> loaded fs @ [JObj dct]
                  | Some i \<Rightarrow> (loaded fs)[i := JObj dct]))\<rparr>"
    by auto
  define rs' where
    "rs' = (case idx of None \<Rightarrow> loaded fs @ [JObj dct] | Some i \<Rightarrow> (loaded fs)[i := JObj dct])"
  have hn: "has_filename f (JObj dct)" using h by (simp add: has_filename_def dict_get_def)
  have c: "content fs'' = Doc (JArr rs')" using fs'' by (simp add: rs'_def)
  from put_facts(1-3)[OF sc hn rs'_def] c
  show "\<exists>rs'. content fs'' = Doc (JArr rs') \<and>
         (\<forall>i<length (loaded fs).
             has_filename f (loaded fs ! i) \<and> (\<forall>j<i. \<not> has_filename f (loaded fs ! j))
             \<longrightarrow> rs' = (loaded fs)[i := JObj dct]) \<and>
         length (filter (has_filename f) rs')
           = max 1 (length (filter (has_filename f) (loaded fs))) \<and>
         unique_filenames rs' = unique_filenames (loaded fs)"
    by blast
qed

theorem upsert_replaces_first_match_only_witness:
  "save_archive_info Padded example_info ''2025-05-03T10:00:00'' duplicate_fs
     = (Returns True,
        duplicate_fs\<lparr>content := Doc (JArr
          [JObj (projr (to_dict Padded example_info)
                 @ [(''updated_at'', JStr ''2025-05-03T10:00:00'')]),
           JObj [(''filename'', JStr ''chalaoshi_csv20250502_5399305_2696_26893D_sha256.zip''),
                 (''post_id'', JStr ''second copy'')]])\<rparr>)
   \<and> has_filename (filename example_info) (loaded duplicate_fs ! 0)
   \<and> length (filter (has_filename (filename example_info)) (loaded duplicate_fs)) = 2
   \<and> \<not> unique_filenames (loaded duplicate_fs)
   \<and> save_archive_info_dict
        [(''filename'', JStr ''chalaoshi_csv20250502_5399305_2696_26893D_sha256.zip''),
         (''extracted'', JBool True)] duplicate_fs
     = (Returns True,
        duplicate_fs\<lparr>content := Doc (JArr
          [JObj [(''filename'', JStr ''chalaoshi_csv20250502_5399305_2696_26893D_sha256.zip''),
                 (''extracted'', JBool True)],
           JObj [(''filename'', JStr ''chalaoshi_csv20250502_5399305_2696_26893D_sha256.zip''),
                 (''post_id'', JStr ''second copy'')]])\<rparr>)
   \<and> map_of [(''filename'', JStr ''chalaoshi_csv20250502_5399305_2696_26893D_sha256.zip''),
              (''extracted'', JBool True)] ''filename''
     = Some (JStr ''chalaoshi_csv20250502_5399305_2696_26893D_sha256.zip'')"
  using upsert_replaces_first_match_only [of Padded example_info "''2025-05-03T10:00:00''"
      duplicate_fs
      "duplicate_fs\<lparr>content := Doc (JArr
          [JObj (projr (to_dict Padded example_info)
                 @ [(''updated_at'', JStr ''2025-05-03T10:00:00'')]),
           JObj [(''filename'', JStr ''chalaoshi_csv20250502_5399305_2696_26893D_sha256.zip''),
                 (''post_id'', JStr ''second copy'')]])\<rparr>"
      "[(''filename'', JStr ''chalaoshi_csv20250502_5399305_2696_26893D_sha256.zip''),
         (''extracted'', JBool True)]"
      "duplicate_fs\<lparr>content := Doc (JArr
          [JObj [(''filename'', JStr ''chalaoshi_csv20250502_5399305_2696_26893D_sha256.zip''),
                 (''extracted'', JBool True)],
           JObj [(''filename'', JStr ''chalaoshi_csv20250502_5399305_2696_26893D_sha256.zip''),
                 (''post_id'', JStr ''second copy'')]])\<rparr>"
      "''chalaoshi_csv20250502_5399305_2696_26893D_sha256.zip''"]
  by (simp add: example_into_duplicate dict_into_duplicate loaded_duplicate example_filename
      has_filename_def dict_get_def unique_filenames_def filenames_def filename_of_def)

text \<open>
  Claim C2, as stated, for every store: it fails on a store that already holds the file
  name twice. Both upserts succeed, and two records of the name are stored afterwards.
\<close>

theorem upsert_twice_counterexample:
  "fst (save_archive_info Padded example_info ''2025-05-03T10:00:00'' duplicate_fs) = Returns True
   \<and> fst (save_archive_info Padded revised_info ''2025-05-04T09:30:00''
        (snd (save_archive_info Padded example_info ''2025-05-03T10:00:00'' duplicate_fs)))
       = Returns True
   \<and> filename revised_info = filename example_info
   \<and> length (filter (has_filename (filename example_info))
        (loaded (snd (save_archive_info Padded revised_info ''2025-05-04T09:30:00''
           (snd (save_archive_info Padded example_info ''2025-05-03T10:00:00'' duplicate_fs))))))
       = 2"
  by (simp add: example_into_duplicate revised_into_duplicate loaded_after_write
      readable_duplicate example_filename revised_to_dict has_filename_def dict_get_def)

text \<open>
  Claim C2, amended: when the list the first upsert loads holds at most one record of the
  file name and both upserts report success, the store holds exactly one record of the
  name afterwards; it is the second call's dictionary, and it stands at the index where
  the first call's record stood, the list being otherwise the one the first call wrote.
\<close>

theorem upsert_twice_one_record:
  "save_archive_info rt r1 t1 fs = (Returns True, fs1) \<Longrightarrow>
   save_archive_info rt r2 t2 fs1 = (Returns True, fs2) \<Longrightarrow>
   filename r2 = filename r1 \<Longrightarrow>
   length (filter (has_filename (filename r1)) (loaded fs)) \<le> 1 \<Longrightarrow>
     \<exists>d1 d2 rs1 i.
       to_dict rt r1 = Inr d1 \<and> to_dict rt r2 = Inr d2 \<and>
       content fs1 = Doc (JArr rs1) \<and> i < length rs1 \<and>
       rs1 ! i = JObj (d1 @ [(''updated_at'', JStr t1)]) \<and>
       content fs2 = Doc (JArr (rs1[i := JObj (d2 @ [(''updated_at'', JStr t2)])])) \<and>
       filter (has_filename (filename r1)) (rs1[i := JObj (d2 @ [(''updated_at'', JStr t2)])])
         = [JObj (d2 @ [(''updated_at'', JStr t2)])]"
proof -
  assume s1: "save_archive_info rt r1 t1 fs = (Returns True, fs1)"
    and s2: "save_archive_info rt r2 t2 fs1 = (Returns True, fs2)"
    and same: "filename r2 = filename r1"
    and one: "length (filter (has_filename (filename r1)) (loaded fs)) \<le> 1"
  define f where "f = filename r1"
  from save_archive_info_success[OF s1] obtain d1 idx1 where
    d1: "to_dict rt r1 = Inr d1" and
    sc1: "scan_records (JStr f) (loaded fs) = Inr idx1" and
    fs1: "fs1 = fs\<lparr>content := Doc (JArr (case idx1 of
                    None \<Rightarrow> loaded fs @ [JObj (d1 @ [(''updated_at'', JStr t1)])]
                  | Some i \<Rightarrow> (loaded fs)[i := JObj (d1 @ [(''updated_at'', JStr t1)])]))\<rparr>"
    unfolding f_def by blast
  define new1 where "new1 = JObj (d1 @ [(''updated_at'', JStr t1)])"
  define rs1 where
    "rs1 = (case idx1 of None \<Rightarrow> loaded fs @ [new1] | Some i \<Rightarrow> (loaded fs)[i := new1])"
  have fs1': "fs1 = fs\<lparr>content := Doc (JArr rs1)\<rparr>" using fs1 unfolding rs1_def new1_def .
  have c1: "content fs1 = Doc (JArr rs1)" using fs1' by simp
  have h1: "has_filename f new1" using has_filename_stamped[OF d1] by (simp add: new1_def f_def)
  have cnt1: "length (filter (has_filename f) rs1) = 1"
    using put_facts(2)[OF sc1 h1 rs1_def] one by (simp add: f_def)
  from save_archive_info_success[OF s2] obtain d2 idx2 where
    d2: "to_dict rt r2 = Inr d2" and
    sc2: "scan_records (JStr f) (loaded fs1) = Inr idx2" and
    fs2: "fs2 = fs1\<lparr>content := Doc (JArr (case idx2 of
                    None \<Rightarrow> loaded fs1 @ [JObj (d2 @ [(''updated_at'', JStr t2)])]
                  | Some i \<Rightarrow> (loaded fs1)[i := JObj (d2 @ [(''updated_at'', JStr t2)])]))\<rparr>"
    unfolding f_def same by blast
  define new2 where "new2 = JObj (d2 @ [(''updated_at'', JStr t2)])"
  have h2: "has_filename f new2"
    using has_filename_stamped[OF d2] by (simp add: new2_def f_def same)
  have "\<exists>i<length rs1. rs1 ! i = new1 \<and> content fs2 = Doc (JArr (rs1[i := new2]))"
  proof (cases "readable fs")
    case True
    have l1: "loaded fs1 = rs1" using fs1' True by (simp add: loaded_after_write)
    define k where "k = (case idx1 of None \<Rightarrow> length (loaded fs) | Some i \<Rightarrow> i)"
    have found: "scan_records (JStr f) rs1 = Inr (Some k)"
      using put_facts(4)[OF sc1 h1 rs1_def] by (simp add: k_def)
    have kl: "k < length rs1" using scan_records_Some[OF found] by simp
    have at: "rs1 ! k = new1"
    proof (cases idx1)
      case None
      then show ?thesis by (simp add: rs1_def k_def)
    next
      case (Some i)
      with scan_records_Some[OF sc1[unfolded Some]] show ?thesis by (simp add: rs1_def k_def)
    qed
    from sc2 l1 found have "idx2 = Some k" by simp
    with fs2 l1 have "content fs2 = Doc (JArr (rs1[k := new2]))" by (simp add: new2_def)
    with kl at show ?thesis by blast
  next
    case False
    then have l0: "loaded fs = []" by (rule loaded_unreadable)
    from False fs1' have "\<not> readable fs1" by simp
    then have l1: "loaded fs1 = []" by (rule loaded_unreadable)
    from sc1 l0 have "idx1 = None" by simp
    with l0 have r1: "rs1 = [new1]" by (simp add: rs1_def)
    from sc2 l1 have "idx2 = None" by simp
    with fs2 l1 have "content fs2 = Doc (JArr [new2])" by (simp add: new2_def)
    with r1 show ?thesis by simp
  qed
  then obtain i where i: "i < length rs1" "rs1 ! i = new1"
    "content fs2 = Doc (JArr (rs1[i := new2]))" by blast
  have "has_filename f (rs1 ! i)" using i(2) h1 by simp
  from filter_update_same[OF i(1) this h2] cnt1
  have one': "length (filter (has_filename f) (rs1[i := new2])) = 1" by simp
  have "filter (has_filename f) (rs1[i := new2]) = [rs1[i := new2] ! i]"
    by (rule filter_singleton_nth[OF one']) (use i(1) h2 in simp_all)
  then have "filter (has_filename f) (rs1[i := new2]) = [new2]" using i(1) by simp
  with d1 d2 c1 i show ?thesis unfolding new1_def new2_def f_def by blast
qed

theorem upsert_twice_one_record_witness:
  "save_archive_info Padded example_info ''2025-05-03T10:00:00'' fresh_fs
     = (Returns True,
        fresh_fs\<lparr>content := Doc (JArr [JObj (projr (to_dict Padded example_info)
                     @ [(''updated_at'', JStr ''2025-05-03T10:00:00'')])])\<rparr>)
   \<and> save_archive_info Padded revised_info ''2025-05-04T09:30:00''
        (fresh_fs\<lparr>content := Doc (JArr [JObj (projr (to_dict Padded example_info)
                     @ [(''updated_at'', JStr ''2025-05-03T10:00:00'')])])\<rparr>)
     = (Returns True,
        fresh_fs\<lparr>content := Doc (JArr [JObj (projr (to_dict Padded revised_info)
                     @ [(''updated_at'', JStr ''2025-05-04T09:30:00'')])])\<rparr>)
   \<and> filename revised_info = filename example_info
   \<and> length (filter (has_filename (filename example_info)) (loaded fresh_fs)) \<le> 1
   \<and> filter (has_filename (filename example_info))
        [JObj (projr (to_dict Padded revised_info)
                     @ [(''updated_at'', JStr ''2025-05-04T09:30:00'')])]
     = [JObj (projr (to_dict Padded revised_info)
                     @ [(''updated_at'', JStr ''2025-05-04T09:30:00'')])]"
  using upsert_twice_one_record [of Padded example_info "''2025-05-03T10:00:00''" fresh_fs
      "fresh_fs\<lparr>content := Doc (JArr [JObj (projr (to_dict Padded example_info)
                     @ [(''updated_at'', JStr ''2025-05-03T10:00:00'')])])\<rparr>"
      revised_info "''2025-05-04T09:30:00''"
      "fresh_fs\<lparr>content := Doc (JArr [JObj (projr (to_dict Padded revised_info)
                     @ [(''updated_at'', JStr ''2025-05-04T09:30:00'')])])\<rparr>"]
  by (simp add: example_into_fresh revised_into_single loaded_fresh example_filename
      revised_to_dict has_filename_def dict_get_def)

section \<open>Failures of the upsert\<close>

text \<open>
  Claim C7, as stated: it fails in two ways. When the directory of the output path cannot
  be created, \<^verbatim>\<open>mkdir\<close> raises before the \<^verbatim>\<open>try\<close> and the exception reaches the
  caller. When the write fails after \<^verbatim>\<open>open(path, 'w')\<close>, the result is \<^verbatim>\<open>False\<close>
  and the file no longer holds the document it held.
\<close>

theorem save_archive_info_failure_counterexample:
  "save_archive_info Padded example_info ''2025-05-03T10:00:00'' (fresh_fs\<lparr>parent_ok := False\<rparr>)
     = (Raises OSError, fresh_fs\<lparr>parent_ok := False\<rparr>)
   \<and> save_archive_info Padded example_info ''2025-05-03T10:00:00''
        (duplicate_fs\<lparr>on_write := DumpFails False\<rparr>)
     = (Returns False, duplicate_fs\<lparr>on_write := DumpFails False, content := NotJson\<rparr>)
   \<and> content (duplicate_fs\<lparr>on_write := DumpFails False\<rparr>) \<noteq> NotJson"
  by (simp add: example_to_dict example_filename fresh_fs_def duplicate_fs_def store_defs
      dict_set_def dict_get_def)

text \<open>
  Claim C7, amended: once the directory of the output path exists or can be created, the
  upsert raises nothing and returns a boolean; it returns \<^verbatim>\<open>True\<close> only when the write
  succeeded; and whenever it returns \<^verbatim>\<open>False\<close> the file is what it was, unless the
  write itself failed after the file had been opened, which leaves a truncated file.
\<close>

theorem save_archive_info_failure_contained:
  "parent_ok fs \<Longrightarrow>
     (\<exists>b. fst (save_archive_info rt info now fs) = Returns b) \<and>
     (fst (save_archive_info rt info now fs) = Returns False \<longrightarrow>
        snd (save_archive_info rt info now fs) = fs \<or>
        (\<exists>torn. on_write fs = DumpFails torn \<and>
           snd (save_archive_info rt info now fs)
             = fs\<lparr>content := (if torn then NotUtf8 else NotJson)\<rparr>)) \<and>
     (fst (save_archive_info rt info now fs) = Returns True \<longrightarrow> on_write fs = WriteOk)"
  by (auto simp: save_archive_info_def write_json_def
      split: sum.splits write_behaviour.splits prod.splits)

theorem save_archive_info_failure_contained_witness:
  "parent_ok (duplicate_fs\<lparr>on_write := OpenFails\<rparr>)
   \<and> save_archive_info Padded example_info ''2025-05-03T10:00:00''
        (duplicate_fs\<lparr>on_write := OpenFails\<rparr>)
     = (Returns False, duplicate_fs\<lparr>on_write := OpenFails\<rparr>)
   \<and> on_write (duplicate_fs\<lparr>on_write := OpenFails\<rparr>) = OpenFails"
  using save_archive_info_failure_contained [of "duplicate_fs\<lparr>on_write := OpenFails\<rparr>"
      Padded example_info "''2025-05-03T10:00:00''"]
  by (simp add: example_to_dict example_filename duplicate_fs_def store_defs
      dict_set_def dict_get_def)

text \<open>
  A store file that is absent, that holds text which is not JSON, or that cannot be opened
  for reading is taken for the empty list, and the upsert writes the one record.
\<close>

lemma save_archive_info_degraded_read:
  "parent_ok fs \<Longrightarrow> on_write fs = WriteOk \<Longrightarrow> to_dict rt info = Inr d \<Longrightarrow>
   content fs = Absent \<or> content fs = NotJson \<or> \<not> readable fs \<Longrightarrow>
     save_archive_info rt info now fs
       = (Returns True, fs\<lparr>content := Doc (JArr [JObj (d @ [(''updated_at'', JStr now)])])\<rparr>)"
  using to_dict_stamp[of rt info d]
  by (auto simp: save_archive_info_def read_existing_def find_record_def put_record_def
      write_json_def split: file_content.splits)

text \<open>
  Claim C8 says that a store whose content does not parse is always taken for the empty
  list. The inner handler names \<^verbatim>\<open>JSONDecodeError\<close> and \<^verbatim>\<open>IOError\<close>; the
  \<^verbatim>\<open>UnicodeDecodeError\<close> of a file whose bytes are not UTF-8 is neither, so it reaches
  \<^verbatim>\<open>except Exception\<close>: the upsert returns \<^verbatim>\<open>False\<close> and writes nothing, although the
  directory exists and the file could have been written.
\<close>

theorem undecodable_store_not_replaced:
  "save_archive_info rt example_info ''2025-05-03T10:00:00'' (fresh_fs\<lparr>content := NotUtf8\<rparr>)
     = (Returns False, fresh_fs\<lparr>content := NotUtf8\<rparr>)
   \<and> parent_ok (fresh_fs\<lparr>content := NotUtf8\<rparr>)
   \<and> on_write (fresh_fs\<lparr>content := NotUtf8\<rparr>) = WriteOk"
  by (simp add: fresh_fs_def store_defs)

section \<open>Saving again after extraction\<close>

text \<open>
  Claim C1 says that the record stored after extraction carries \<^verbatim>\<open>updated_at\<close> like
  every stored record. \<^verbatim>\<open>_save_archive_info_dict\<close> stores the dictionary it is given,
  and \<^verbatim>\<open>extract_file\<close> builds it from \<^verbatim>\<open>to_dict\<close> and the three extraction fields
  only: the record that the first save stamped is replaced by one without the stamp.
\<close>

theorem mark_extracted_drops_updated_at:
  "(case save_archive_info rt example_info ''2025-05-03T10:00:00'' fresh_fs of
      (r1, fs1) \<Rightarrow>
        (case mark_extracted rt example_info ''extracted'' ''2025-05-03T10:00:05'' fs1 of
           (r2, fs2) \<Rightarrow>
             r1 = Returns True \<and> r2 = Returns True \<and>
             map (\<lambda>r. case r of JObj d \<Rightarrow> map_of d ''updated_at'' | _ \<Rightarrow> None) (loaded fs1)
               = [Some (JStr ''2025-05-03T10:00:00'')] \<and>
             map (\<lambda>r. case r of JObj d \<Rightarrow> map_of d ''updated_at'' | _ \<Rightarrow> None) (loaded fs2)
               = [None] \<and>
             map (\<lambda>r. case r of JObj d \<Rightarrow> map_of d ''extracted'' | _ \<Rightarrow> None) (loaded fs2)
               = [Some (JBool True)] \<and>
             map (\<lambda>r. case r of JObj d \<Rightarrow> map_of d ''extraction_time'' | _ \<Rightarrow> None) (loaded fs2)
               = [Some (JStr ''2025-05-03T10:00:05'')]))"
  by (cases rt)
     (simp_all add: store_defs example_info_def fresh_fs_def dict_defs date_defs loaded_def)

section \<open>The parser beyond the example\<close>

text \<open>
  Claim C4 says that the parser returns nothing for every text outside the grammar. A
  well-formed archive name followed by one line feed is no text of the grammar, which
  ends in \<^verbatim>\<open>.zip\<close>, yet \<^verbatim>\<open>$\<close> accepts it and the parser returns a record (whose file
  name keeps the line feed).
\<close>

theorem parse_accepts_trailing_newline:
  "parse_archive_filename (''chalaoshi_csv20250502_5399305_2696_26893D_sha256.zip'' @ [CHR 0x0A])
     = Some \<lparr>filename = ''chalaoshi_csv20250502_5399305_2696_26893D_sha256.zip'' @ [CHR 0x0A],
             date_str = ''20250502'', post_id = ''5399305'', floor_number = ''2696'',
             author_id = ''26893D'', encryption_method = ''sha256''\<rparr>
   \<and> (\<forall>d p f a m. archive_name d p f a m
          \<noteq> ''chalaoshi_csv20250502_5399305_2696_26893D_sha256.zip'' @ [CHR 0x0A])"
proof (rule conjI)
  show "parse_archive_filename
          (''chalaoshi_csv20250502_5399305_2696_26893D_sha256.zip'' @ [CHR 0x0A])
     = Some \<lparr>filename = ''chalaoshi_csv20250502_5399305_2696_26893D_sha256.zip'' @ [CHR 0x0A],
             date_str = ''20250502'', post_id = ''5399305'', floor_number = ''2696'',
             author_id = ''26893D'', encryption_method = ''sha256''\<rparr>"
    by (simp add: parse_defs date_defs)
next
  show "\<forall>d p f a m. archive_name d p f a m
          \<noteq> ''chalaoshi_csv20250502_5399305_2696_26893D_sha256.zip'' @ [CHR 0x0A]"
  proof (intro allI notI)
    fix d p f a m
    assume "archive_name d p f a m
          = ''chalaoshi_csv20250502_5399305_2696_26893D_sha256.zip'' @ [CHR 0x0A]"
    then have "last (archive_name d p f a m)
          = last (''chalaoshi_csv20250502_5399305_2696_26893D_sha256.zip'' @ [CHR 0x0A])"
      by (rule arg_cong)
    moreover have "last (archive_name d p f a m) = CHR ''p''"
      by (simp add: archive_name_def)
    ultimately show False by simp
  qed
qed

text \<open>
  Claim C5 says that the formatted date is the eight digits with hyphens inserted. For a
  year below 1000 that holds only where the C library pads \<^verbatim>\<open>%Y\<close>: with glibc the
  name \<^verbatim>\<open>chalaoshi_csv09990101_1_1_a_sha256.zip\<close>, whose date is a calendar date, gets
  \<^verbatim>\<open>999-01-01\<close> and not \<^verbatim>\<open>0999-01-01\<close>.
\<close>

theorem date_formatted_year_999:
  "parse_archive_filename ''chalaoshi_csv09990101_1_1_a_sha256.zip''
     = Some \<lparr>filename = ''chalaoshi_csv09990101_1_1_a_sha256.zip'', date_str = ''09990101'',
             post_id = ''1'', floor_number = ''1'', author_id = ''a'',
             encryption_method = ''sha256''\<rparr>
   \<and> map_sum id (\<lambda>d. dict_get d ''date_formatted'')
       (to_dict Unpadded \<lparr>filename = ''chalaoshi_csv09990101_1_1_a_sha256.zip'',
             date_str = ''09990101'', post_id = ''1'', floor_number = ''1'', author_id = ''a'',
             encryption_method = ''sha256''\<rparr>)
     = Inr (JStr ''999-01-01'')
   \<and> hyphenated ''09990101'' = ''0999-01-01''
   \<and> calendar_date ''09990101''"
  by (simp add: parse_defs date_defs dict_defs hyphenated_def calendar_date_def)

end
